theory Spec2Isabelle
  imports Complex_Main "HOL-Library.AList"
begin

section \<open>The tool-invocation pipeline of mcp-server-improved.js\<close>

text \<open>
  A shallow embedding of the request-handling layer of \<^verbatim>\<open>src/mcp-server-improved.js\<close>:
  the response cache (\<^verbatim>\<open>getCachedResponse\<close>, \<^verbatim>\<open>setCachedResponse\<close>), the retry
  executor (\<^verbatim>\<open>withRetry\<close>), the schema validator (\<^verbatim>\<open>validateInput\<close>) and the
  \<^verbatim>\<open>CallToolRequestSchema\<close> handler installed by \<^verbatim>\<open>setupToolHandlers\<close>.
  Exceptions are values of a sum type, the module-level cache is passed and returned,
  and everything the handler reads from outside (the clock, the outcome of each attempt
  of an external call) is an explicit argument.
\<close>

subsection \<open>JavaScript values\<close>

text \<open>
  A number is an IEEE double: a finite value (a rational), an infinity or NaN.
  A string is a list of code units; a \<^typ>\<open>char\<close> stands for one code unit, so
  \<^verbatim>\<open>s.length\<close> is \<^term>\<open>length s\<close>. An object is the list of its own enumerable
  properties in enumeration order (the order of \<^verbatim>\<open>Object.entries\<close> and of
  \<^verbatim>\<open>JSON.stringify\<close>); property names are distinct in any real object.
\<close>

datatype jsnum = Finite rat | PosInf | NegInf | NaN

datatype jsval =
    JUndefined
  | JNull
  | JBool bool
  | JNum jsnum
  | JStr string
  | JArr "jsval list"
  | JObj "(string \<times> jsval) list"

type_synonym args = "(string \<times> jsval) list"

text \<open>
  Two builtins of the runtime are parameters of the model, since they are decided by
  floating-point conversion routines outside this repository: the numeric coercion
  \<^verbatim>\<open>ToNumber\<close> of strings, arrays and objects, and \<^verbatim>\<open>Number::toString\<close>.
\<close>

record runtime =
  coerce :: "jsval \<Rightarrow> jsnum"
  num2str :: "rat \<Rightarrow> string"

fun js_typeof :: "jsval \<Rightarrow> string" where
  "js_typeof JUndefined = ''undefined''"
| "js_typeof JNull = ''object''"
| "js_typeof (JBool b) = ''boolean''"
| "js_typeof (JNum x) = ''number''"
| "js_typeof (JStr s) = ''string''"
| "js_typeof (JArr xs) = ''object''"
| "js_typeof (JObj ps) = ''object''"

text \<open>\<^verbatim>\<open>args[field]\<close>: the property's value, \<^verbatim>\<open>undefined\<close> when there is none.\<close>

definition js_get :: "args \<Rightarrow> string \<Rightarrow> jsval" where
  "js_get obj field = (case map_of obj field of None \<Rightarrow> JUndefined | Some v \<Rightarrow> v)"

fun ToNumber :: "runtime \<Rightarrow> jsval \<Rightarrow> jsnum" where
  "ToNumber rt JUndefined = NaN"
| "ToNumber rt JNull = Finite 0"
| "ToNumber rt (JBool b) = Finite (if b then 1 else 0)"
| "ToNumber rt (JNum x) = x"
| "ToNumber rt v = coerce rt v"

text \<open>\<^verbatim>\<open>v < n\<close> and \<^verbatim>\<open>v > n\<close> for a finite number \<open>n\<close>: false when \<open>v\<close> converts to NaN.\<close>

definition js_lt :: "runtime \<Rightarrow> jsval \<Rightarrow> int \<Rightarrow> bool" where
  "js_lt rt v n =
     (case ToNumber rt v of Finite x \<Rightarrow> x < of_int n | NegInf \<Rightarrow> True | PosInf \<Rightarrow> False | NaN \<Rightarrow> False)"

definition js_gt :: "runtime \<Rightarrow> jsval \<Rightarrow> int \<Rightarrow> bool" where
  "js_gt rt v n =
     (case ToNumber rt v of Finite x \<Rightarrow> of_int n < x | PosInf \<Rightarrow> True | NegInf \<Rightarrow> False | NaN \<Rightarrow> False)"

subsection \<open>Errors\<close>

text \<open>
  A thrown value is either an \<^verbatim>\<open>McpError\<close> (kind and message) or any other error
  object, of which the code reads the properties \<^verbatim>\<open>code\<close>, \<^verbatim>\<open>status\<close> and
  \<^verbatim>\<open>message\<close>. The \<^verbatim>\<open>code\<close> of an \<^verbatim>\<open>McpError\<close> is a number and it has no
  \<^verbatim>\<open>status\<close>.
\<close>

datatype ErrorCode = InvalidParams | MethodNotFound | InternalError

datatype jserror =
    McpError ErrorCode string
  | Error (code: jsval) (status: jsval) (message: string)

fun error_message :: "jserror \<Rightarrow> string" where
  "error_message (McpError c m) = m"
| "error_message (Error c s m) = m"

text \<open>The value that flows from a tool handler to the cache and to the response.\<close>

datatype jsstr = Undefined | Null | Str string

fun truthy :: "jsstr \<Rightarrow> bool" where
  "truthy (Str s) = (s \<noteq> [])"
| "truthy Undefined = False"
| "truthy Null = False"

fun to_string :: "jsstr \<Rightarrow> string" where
  "to_string (Str s) = s"
| "to_string Undefined = ''undefined''"
| "to_string Null = ''null''"

subsection \<open>What an invocation leaves behind\<close>

datatype event =
    CacheGet string
  | CacheSet string
  | HandlerCall string
  | Attempt nat
  | Wait nat

fun is_Attempt :: "event \<Rightarrow> bool" where
  "is_Attempt (Attempt i) = True"
| "is_Attempt e = False"

fun is_Wait :: "event \<Rightarrow> bool" where
  "is_Wait (Wait d) = True"
| "is_Wait e = False"

fun is_HandlerCall :: "event \<Rightarrow> bool" where
  "is_HandlerCall (HandlerCall n) = True"
| "is_HandlerCall e = False"

subsection \<open>Constants\<close>

definition CACHE_TTL :: int where
  "CACHE_TTL = 300000"

definition MAX_RETRIES :: nat where
  "MAX_RETRIES = 3"

definition RETRY_DELAY_BASE :: nat where
  "RETRY_DELAY_BASE = 1000"

subsection \<open>Retry with exponential backoff\<close>

definition nonRetryable :: "jserror \<Rightarrow> bool" where
  "nonRetryable error =
     (case error of
        McpError c m \<Rightarrow> False
      | Error c s m \<Rightarrow>
          c = JStr ''ENOTFOUND'' \<or> s = JNum (Finite 401) \<or> s = JNum (Finite 403))"

text \<open>
  The loop of \<^verbatim>\<open>withRetry\<close> from index \<open>i\<close>. The operation is an external call; its
  outcome at the attempt with index \<open>i\<close> is \<open>operation i\<close>. The result is what the
  function returns or throws (\<^term>\<open>Undefined\<close> when the loop ends without returning),
  with the attempts made and the delays waited, in order.
\<close>

function withRetry_from :: "(nat \<Rightarrow> jserror + jsstr) \<Rightarrow> nat \<Rightarrow> nat \<Rightarrow> (jserror + jsstr) \<times> event list" where
  "withRetry_from operation maxRetries i =
     (if i < maxRetries then
        (case operation i of
           Inr r \<Rightarrow> (Inr r, [Attempt i])
         | Inl error \<Rightarrow>
             if i = maxRetries - 1 then (Inl error, [Attempt i])
             else if nonRetryable error then (Inl error, [Attempt i])
             else
               (let delay = RETRY_DELAY_BASE * 2 ^ i;
                    rest = withRetry_from operation maxRetries (i + 1)
                in (fst rest, Attempt i # Wait delay # snd rest)))
      else (Inr Undefined, []))"
  by pat_completeness auto
termination
  by (relation "measure (\<lambda>(operation, maxRetries, i). maxRetries - i)") auto

declare withRetry_from.simps [simp del]

definition withRetry :: "(nat \<Rightarrow> jserror + jsstr) \<Rightarrow> nat \<Rightarrow> (jserror + jsstr) \<times> event list" where
  "withRetry operation maxRetries = withRetry_from operation maxRetries 0"


text \<open>
  How a run of \<^verbatim>\<open>withRetry\<close> is described below: the attempt with index \<open>k\<close> ends
  the loop when it succeeds, is the last one, or fails with a non-retryable error;
  \<open>backoff i k\<close> is the attempts \<open>i, ..., k - 1\<close>, each followed by its delay.
\<close>

definition stops_at :: "(nat \<Rightarrow> jserror + jsstr) \<Rightarrow> nat \<Rightarrow> nat \<Rightarrow> bool" where
  "stops_at operation maxRetries k =
     (case operation k of Inr v \<Rightarrow> True | Inl e \<Rightarrow> k = maxRetries - 1 \<or> nonRetryable e)"

definition backoff :: "nat \<Rightarrow> nat \<Rightarrow> event list" where
  "backoff i k = concat (map (\<lambda>j. [Attempt j, Wait (RETRY_DELAY_BASE * 2 ^ j)]) [i..<k])"

subsection \<open>The response cache\<close>

text \<open>
  The module-level \<^verbatim>\<open>Map\<close>: its entries in insertion order. \<^verbatim>\<open>cache.set\<close> replaces
  the value of a key that is there and appends a new key, which is
  \<^const>\<open>AList.update\<close>; \<^verbatim>\<open>cache.size\<close> is the length. Each reading of
  \<^verbatim>\<open>Date.now()\<close> is an argument.
\<close>

record entry =
  data :: jsstr
  timestamp :: int

type_synonym cache = "(string \<times> entry) list"

definition getCachedResponse :: "int \<Rightarrow> cache \<Rightarrow> string \<Rightarrow> jsstr" where
  "getCachedResponse now cache key =
     (case map_of cache key of
        Some cached \<Rightarrow> if now - timestamp cached < CACHE_TTL then data cached else Null
      | None \<Rightarrow> Null)"

definition setCachedResponse :: "int \<Rightarrow> int \<Rightarrow> cache \<Rightarrow> string \<Rightarrow> jsstr \<Rightarrow> cache" where
  "setCachedResponse now now' cache key d =
     (let cache1 = AList.update key \<lparr>data = d, timestamp = now\<rparr> cache
      in if length cache1 > 1000 then
           (let cutoff = now' - CACHE_TTL
            in filter (\<lambda>(k, v). \<not> timestamp v < cutoff) cache1)
         else cache1)"

subsection \<open>Input validation\<close>

text \<open>
  The rules of one field. A property the schema does not set is \<^term>\<open>None\<close>
  (\<^verbatim>\<open>required\<close>: false). The bounds of the registered schemas are integers.
\<close>

record rules =
  type_rule :: "string option"
  required :: bool
  minLength :: "int option"
  maxLength :: "int option"
  min_rule :: "int option"
  max_rule :: "int option"
  enum :: "string list option"

definition no_rules :: rules where
  "no_rules = \<lparr>type_rule = None, required = False, minLength = None, maxLength = None,
     min_rule = None, max_rule = None, enum = None\<rparr>"

definition validationSchemas :: "(string \<times> (string \<times> rules) list) list" where
  "validationSchemas =
    [(''image_generate'',
        [(''prompt'', no_rules\<lparr>type_rule := Some ''string'', required := True,
                                minLength := Some 1, maxLength := Some 1000\<rparr>),
         (''size'', no_rules\<lparr>type_rule := Some ''string'',
                              enum := Some [''256x256'', ''512x512'', ''1024x1024'']\<rparr>),
         (''n'', no_rules\<lparr>type_rule := Some ''number'', min_rule := Some 1, max_rule := Some 4\<rparr>)]),
     (''analyze_code'',
        [(''code'', no_rules\<lparr>type_rule := Some ''string'', required := True, minLength := Some 1\<rparr>),
         (''language'', no_rules\<lparr>type_rule := Some ''string''\<rparr>),
         (''analysis_type'', no_rules\<lparr>type_rule := Some ''string'',
                              enum := Some [''review'', ''explain'', ''optimize'', ''debug'']\<rparr>)]),
     (''web_request'',
        [(''url'', no_rules\<lparr>type_rule := Some ''string'', required := True\<rparr>),
         (''method'', no_rules\<lparr>type_rule := Some ''string'',
                              enum := Some [''GET'', ''POST'', ''PUT'', ''DELETE'', ''PATCH'']\<rparr>)]),
     (''ask_athena'',
        [(''prompt'', no_rules\<lparr>type_rule := Some ''string'', required := True,
                                minLength := Some 1, maxLength := Some 2000\<rparr>)])]"

text \<open>Decimal digits of an integer, as a template literal prints it (below \<open>10^21\<close>).\<close>

fun digits :: "nat \<Rightarrow> string" where
  "digits n = (if n < 10 then [char_of (48 + n)] else digits (n div 10) @ [char_of (48 + n mod 10)])"

declare digits.simps [simp del]

definition Number_toString :: "int \<Rightarrow> string" where
  "Number_toString n = (if n < 0 then CHR ''-'' # digits (nat (- n)) else digits (nat n))"

fun join :: "string \<Rightarrow> string list \<Rightarrow> string" where
  "join sep [] = []"
| "join sep [x] = x"
| "join sep (x # y # ys) = x @ sep @ join sep (y # ys)"

text \<open>
  \<^verbatim>\<open>value.length\<close>: a \<^verbatim>\<open>TypeError\<close> on \<^verbatim>\<open>null\<close> and \<^verbatim>\<open>undefined\<close>, the
  number of code units of a string, the number of elements of an array, the property of
  that name of an object, \<^verbatim>\<open>undefined\<close> on a number or a boolean.
\<close>

definition TypeError :: "string \<Rightarrow> jserror" where
  "TypeError of_what =
     Error JUndefined JUndefined
       (''Cannot read properties of '' @ of_what @ '' (reading '' @ [CHR 0x27] @ ''length'' @ [CHR 0x27] @ '')'')"

fun js_length :: "jsval \<Rightarrow> jserror + jsval" where
  "js_length JUndefined = Inl (TypeError ''undefined'')"
| "js_length JNull = Inl (TypeError ''null'')"
| "js_length (JStr s) = Inr (JNum (Finite (of_nat (length s))))"
| "js_length (JArr xs) = Inr (JNum (Finite (of_nat (length xs))))"
| "js_length (JObj ps) = Inr (js_get ps ''length'')"
| "js_length (JBool b) = Inr JUndefined"
| "js_length (JNum x) = Inr JUndefined"

text \<open>
  The conditions of the four bound checks. A bound guards its check by its truthiness
  (\<^verbatim>\<open>rules.min && value < rules.min\<close>): a bound that is not set, or is \<open>0\<close>, checks
  nothing.
\<close>

definition minLength_violated :: "runtime \<Rightarrow> rules \<Rightarrow> jsval \<Rightarrow> jserror + bool" where
  "minLength_violated rt rules v =
     (case minLength rules of
        None \<Rightarrow> Inr False
      | Some n \<Rightarrow> if n = 0 then Inr False
                  else (case js_length v of Inl e \<Rightarrow> Inl e | Inr len \<Rightarrow> Inr (js_lt rt len n)))"

definition maxLength_violated :: "runtime \<Rightarrow> rules \<Rightarrow> jsval \<Rightarrow> jserror + bool" where
  "maxLength_violated rt rules v =
     (case maxLength rules of
        None \<Rightarrow> Inr False
      | Some n \<Rightarrow> if n = 0 then Inr False
                  else (case js_length v of Inl e \<Rightarrow> Inl e | Inr len \<Rightarrow> Inr (js_gt rt len n)))"

definition min_violated :: "runtime \<Rightarrow> rules \<Rightarrow> jsval \<Rightarrow> bool" where
  "min_violated rt rules v =
     (case min_rule rules of None \<Rightarrow> False | Some n \<Rightarrow> n \<noteq> 0 \<and> js_lt rt v n)"

definition max_violated :: "runtime \<Rightarrow> rules \<Rightarrow> jsval \<Rightarrow> bool" where
  "max_violated rt rules v =
     (case max_rule rules of None \<Rightarrow> False | Some n \<Rightarrow> n \<noteq> 0 \<and> js_gt rt v n)"

text \<open>\<^verbatim>\<open>rules.enum && !rules.enum.includes(value)\<close>: the allowed values are strings.\<close>

definition enum_violated :: "rules \<Rightarrow> jsval \<Rightarrow> bool" where
  "enum_violated rules v =
     (case enum rules of
        None \<Rightarrow> False
      | Some allowed \<Rightarrow> \<not> (case v of JStr s \<Rightarrow> s \<in> set allowed | _ \<Rightarrow> False))"

definition invalid :: "string \<Rightarrow> jserror + unit" where
  "invalid msg = Inl (McpError InvalidParams msg)"

text \<open>The body of the loop of \<^verbatim>\<open>validateInput\<close>, for one field.\<close>

definition validateField :: "runtime \<Rightarrow> string \<Rightarrow> rules \<Rightarrow> jsval \<Rightarrow> jserror + unit" where
  "validateField rt field rules v =
     (if required rules \<and> (v = JUndefined \<or> v = JNull) then
        invalid (''Missing required field: '' @ field)
      else if v \<noteq> JUndefined then
        (if type_rule rules = Some ''string'' \<and> js_typeof v \<noteq> ''string'' then
           invalid (''Field '' @ field @ '' must be a string'')
         else if type_rule rules = Some ''number'' \<and> js_typeof v \<noteq> ''number'' then
           invalid (''Field '' @ field @ '' must be a number'')
         else
           (case minLength_violated rt rules v of
              Inl e \<Rightarrow> Inl e
            | Inr True \<Rightarrow>
                invalid (''Field '' @ field @ '' must be at least ''
                  @ Number_toString (the (minLength rules)) @ '' characters'')
            | Inr False \<Rightarrow>
               (case maxLength_violated rt rules v of
                  Inl e \<Rightarrow> Inl e
                | Inr True \<Rightarrow>
                    invalid (''Field '' @ field @ '' must be at most ''
                      @ Number_toString (the (maxLength rules)) @ '' characters'')
                | Inr False \<Rightarrow>
                    if min_violated rt rules v then
                      invalid (''Field '' @ field @ '' must be at least ''
                        @ Number_toString (the (min_rule rules)))
                    else if max_violated rt rules v then
                      invalid (''Field '' @ field @ '' must be at most ''
                        @ Number_toString (the (max_rule rules)))
                    else if enum_violated rules v then
                      invalid (''Field '' @ field @ '' must be one of: ''
                        @ join '', '' (the (enum rules)))
                    else Inr ())))
      else Inr ())"

fun validateFields :: "runtime \<Rightarrow> (string \<times> rules) list \<Rightarrow> args \<Rightarrow> jserror + bool" where
  "validateFields rt [] args = Inr True"
| "validateFields rt ((field, rules) # rest) args =
     (case validateField rt field rules (js_get args field) of
        Inl e \<Rightarrow> Inl e
      | Inr u \<Rightarrow> validateFields rt rest args)"

text \<open>
  \<^verbatim>\<open>validationSchemas[toolName]\<close> is also truthy for a name inherited from
  \<^verbatim>\<open>Object.prototype\<close> (\<^verbatim>\<open>constructor\<close>, \<^verbatim>\<open>toString\<close>, ...), whose value has no
  enumerable property: the loop body never runs and the function returns \<^verbatim>\<open>true\<close>, as
  it does for a name with no schema.
\<close>

definition validateInput :: "runtime \<Rightarrow> string \<Rightarrow> args \<Rightarrow> jserror + bool" where
  "validateInput rt toolName args =
     (case map_of validationSchemas toolName of
        None \<Rightarrow> Inr True
      | Some schema \<Rightarrow> validateFields rt schema args)"


subsection \<open>The cache key\<close>

text \<open>
  \<^verbatim>\<open>JSON.stringify\<close>: \<^term>\<open>None\<close> is the result \<^verbatim>\<open>undefined\<close>. A property whose
  value has no serialisation is left out of an object and is \<^verbatim>\<open>null\<close> in an array; a
  number that is not finite is \<^verbatim>\<open>null\<close>.
\<close>

definition hex_digit :: "nat \<Rightarrow> char" where
  "hex_digit n = (if n < 10 then char_of (48 + n) else char_of (87 + n))"

definition quote_char :: "char \<Rightarrow> string" where
  "quote_char c =
     (if c = CHR 0x22 then [CHR 0x5C, CHR 0x22]
      else if c = CHR 0x5C then [CHR 0x5C, CHR 0x5C]
      else if c = CHR 0x08 then [CHR 0x5C, CHR ''b'']
      else if c = CHR 0x0C then [CHR 0x5C, CHR ''f'']
      else if c = CHR 0x0A then [CHR 0x5C, CHR ''n'']
      else if c = CHR 0x0D then [CHR 0x5C, CHR ''r'']
      else if c = CHR 0x09 then [CHR 0x5C, CHR ''t'']
      else if (of_char c :: nat) < 32 then
        [CHR 0x5C, CHR ''u'', CHR ''0'', CHR ''0'',
         hex_digit (of_char c div 16), hex_digit (of_char c mod 16)]
      else [c])"

definition JSON_quote :: "string \<Rightarrow> string" where
  "JSON_quote s = CHR 0x22 # concat (map quote_char s) @ [CHR 0x22]"

fun JSON_stringify :: "runtime \<Rightarrow> jsval \<Rightarrow> string option" where
  "JSON_stringify rt JUndefined = None"
| "JSON_stringify rt JNull = Some ''null''"
| "JSON_stringify rt (JBool b) = Some (if b then ''true'' else ''false'')"
| "JSON_stringify rt (JNum x) = Some (case x of Finite q \<Rightarrow> num2str rt q | _ \<Rightarrow> ''null'')"
| "JSON_stringify rt (JStr s) = Some (JSON_quote s)"
| "JSON_stringify rt (JArr xs) =
     Some (''['' @ join '',''
       (map (\<lambda>x. case JSON_stringify rt x of None \<Rightarrow> ''null'' | Some t \<Rightarrow> t) xs) @ '']'')"
| "JSON_stringify rt (JObj ps) =
     Some (''{'' @ join '',''
       (concat (map (\<lambda>p. case JSON_stringify rt (snd p) of
                             None \<Rightarrow> []
                           | Some t \<Rightarrow> [JSON_quote (fst p) @ '':'' @ t]) ps)) @ ''}'')"

text \<open>The template literal \<^verbatim>\<open>`${name}:${JSON.stringify(args)}`\<close>.\<close>

definition cacheKey :: "runtime \<Rightarrow> string \<Rightarrow> args \<Rightarrow> string" where
  "cacheKey rt name args =
     name @ '':'' @ (case JSON_stringify rt (JObj args) of None \<Rightarrow> ''undefined'' | Some t \<Rightarrow> t)"

subsection \<open>The tool handlers\<close>

text \<open>
  What one invocation meets outside the pipeline: whether the OpenAI client was
  constructed, the outcome of each attempt of the external call its handler wraps in
  \<^verbatim>\<open>withRetry\<close>, and the readings of \<^verbatim>\<open>Date.now()\<close> in the cache lookup, in the
  store and in the sweep.
\<close>

record world =
  openai :: bool
  operation :: "nat \<Rightarrow> jserror + jsstr"
  now_lookup :: int
  now_store :: int
  now_sweep :: int

definition openai_missing :: jserror where
  "openai_missing = McpError InternalError ''OpenAI client not initialized. Please check your API key.''"

definition handleAskAthena :: "world \<Rightarrow> (jserror + jsstr) \<times> event list" where
  "handleAskAthena w =
     (if \<not> openai w then (Inl openai_missing, []) else withRetry (operation w) MAX_RETRIES)"

definition handleGetSystemStats :: "world \<Rightarrow> (jserror + jsstr) \<times> event list" where
  "handleGetSystemStats w = withRetry (operation w) MAX_RETRIES"

definition handleAnalyzeCode :: "world \<Rightarrow> (jserror + jsstr) \<times> event list" where
  "handleAnalyzeCode w =
     (if \<not> openai w then (Inl openai_missing, []) else withRetry (operation w) MAX_RETRIES)"

definition handleGenerateCode :: "world \<Rightarrow> (jserror + jsstr) \<times> event list" where
  "handleGenerateCode w =
     (if \<not> openai w then (Inl openai_missing, []) else withRetry (operation w) MAX_RETRIES)"

definition handleImageGenerate :: "world \<Rightarrow> (jserror + jsstr) \<times> event list" where
  "handleImageGenerate w =
     (if \<not> openai w then (Inl openai_missing, []) else withRetry (operation w) MAX_RETRIES)"

definition handleWebRequest :: "world \<Rightarrow> (jserror + jsstr) \<times> event list" where
  "handleWebRequest w = withRetry (operation w) MAX_RETRIES"

definition called :: "string \<Rightarrow> (jserror + jsstr) \<times> event list \<Rightarrow> (jserror + jsstr) \<times> event list" where
  "called name run = (fst run, HandlerCall name # snd run)"

text \<open>The tools whose handler tests \<^verbatim>\<open>this.openai\<close> before it enters the retry loop.\<close>

definition usesOpenAI :: "string \<Rightarrow> bool" where
  "usesOpenAI name =
     (name \<in> set [''ask_athena'', ''analyze_code'', ''generate_code'', ''image_generate''])"

text \<open>The \<^verbatim>\<open>switch (name)\<close> of the request handler.\<close>

definition handlerNames :: "string list" where
  "handlerNames = [''ask_athena'', ''get_system_stats'', ''analyze_code'', ''generate_code'',
     ''image_generate'', ''web_request'']"

definition dispatch :: "world \<Rightarrow> string \<Rightarrow> (jserror + jsstr) \<times> event list" where
  "dispatch w name =
     (if name = ''ask_athena'' then called name (handleAskAthena w)
      else if name = ''get_system_stats'' then called name (handleGetSystemStats w)
      else if name = ''analyze_code'' then called name (handleAnalyzeCode w)
      else if name = ''generate_code'' then called name (handleGenerateCode w)
      else if name = ''image_generate'' then called name (handleImageGenerate w)
      else if name = ''web_request'' then called name (handleWebRequest w)
      else (Inl (McpError MethodNotFound (''Unknown tool: '' @ name)), []))"

subsection \<open>The request handler\<close>

definition cacheable :: "string \<Rightarrow> bool" where
  "cacheable name = (name \<in> set [''get_system_stats'', ''ask_athena''])"

text \<open>The response \<^verbatim>\<open>{ content: [{ type: 'text', text: ... }] }\<close>.\<close>

datatype response = Content jsstr

text \<open>The \<^verbatim>\<open>catch\<close> clause: what the handler throws for what the \<^verbatim>\<open>try\<close> block threw.\<close>

fun catch_clause :: "jserror \<Rightarrow> jserror" where
  "catch_clause (McpError c m) = McpError c m"
| "catch_clause (Error c s m) = McpError InternalError (''Tool execution failed: '' @ m)"

text \<open>
  One invocation: the response or the error thrown, the cache afterwards, and the cache
  accesses, handler calls, attempts and delays of the invocation in order.
\<close>

definition callTool ::
  "runtime \<Rightarrow> world \<Rightarrow> cache \<Rightarrow> string \<Rightarrow> args \<Rightarrow> (jserror + response) \<times> cache \<times> event list" where
  "callTool rt w cache name args =
     (case validateInput rt name args of
        Inl error \<Rightarrow> (Inl (catch_clause error), cache, [])
      | Inr ok \<Rightarrow>
         (let key = cacheKey rt name args;
              cached = getCachedResponse (now_lookup w) cache key
          in if truthy cached \<and> cacheable name then
               (Inr (Content (Str (''[CACHED] '' @ to_string cached))), cache, [CacheGet key])
             else
               (case dispatch w name of
                  (Inl error, tr) \<Rightarrow> (Inl (catch_clause error), cache, CacheGet key # tr)
                | (Inr result, tr) \<Rightarrow>
                    if cacheable name then
                      (Inr (Content result),
                       setCachedResponse (now_store w) (now_sweep w) cache key result,
                       CacheGet key # tr @ [CacheSet key])
                    else (Inr (Content result), cache, CacheGet key # tr))))"


subsection \<open>A full cache\<close>

text \<open>
  A cache of 1001 entries with distinct keys: one entry stamped \<open>0\<close> and a thousand
  stamped \<open>300000\<close>.
\<close>

definition boundary_cache :: cache where
  "boundary_cache =
     (''stale'', \<lparr>data = Str ''x'', timestamp = 0\<rparr>)
       # map (\<lambda>i. (replicate (Suc i) CHR ''k'', \<lparr>data = Str ''y'', timestamp = 300000\<rparr>)) [0..<1000]"

subsection \<open>Example surroundings\<close>

text \<open>
  A runtime whose two builtins are constant, and a world in which every attempt of the
  external call has the same outcome and every reading of the clock is the same.
\<close>

definition some_runtime :: runtime where
  "some_runtime = \<lparr>coerce = (\<lambda>v. NaN), num2str = (\<lambda>q. ''0'')\<rparr>"

definition steady_world :: "jserror + jsstr \<Rightarrow> int \<Rightarrow> world" where
  "steady_world outcome now =
     \<lparr>openai = True, operation = (\<lambda>i. outcome), now_lookup = now, now_store = now, now_sweep = now\<rparr>"

text \<open>The same world on a server whose OpenAI client could not be constructed.\<close>

definition no_client_world :: "jserror + jsstr \<Rightarrow> int \<Rightarrow> world" where
  "no_client_world outcome now =
     \<lparr>openai = False, operation = (\<lambda>i. outcome), now_lookup = now, now_store = now, now_sweep = now\<rparr>"

subsection \<open>The validation contract\<close>

text \<open>
  The eight rules of a field, each with its message, the first violated one deciding;
  the fields are taken in the order of the schema. A length is the length of a string,
  and a bound compares a number. The contract is written twice. In the words of the
  specification a field is absent when it is \<^verbatim>\<open>undefined\<close> or \<^verbatim>\<open>null\<close> and present
  otherwise, and rules 2 to 8 speak of a present value (\<open>spec_validate\<close>). In the
  amended contract rules 2 to 8 speak of a value that is supplied, that is, not
  \<^verbatim>\<open>undefined\<close>, so \<^verbatim>\<open>null\<close> is absent for rule 1 and supplied for the others
  (\<open>amended_validate\<close>).
\<close>

definition absent :: "jsval \<Rightarrow> bool" where
  "absent v = (v = JUndefined \<or> v = JNull)"

definition present :: "jsval \<Rightarrow> bool" where
  "present v = (\<not> absent v)"

definition supplied :: "jsval \<Rightarrow> bool" where
  "supplied v = (v \<noteq> JUndefined)"

definition is_string :: "jsval \<Rightarrow> bool" where
  "is_string v = (case v of JStr s \<Rightarrow> True | _ \<Rightarrow> False)"

definition is_number :: "jsval \<Rightarrow> bool" where
  "is_number v = (case v of JNum x \<Rightarrow> True | _ \<Rightarrow> False)"

definition shorter_than :: "int \<Rightarrow> jsval \<Rightarrow> bool" where
  "shorter_than n v = (case v of JStr s \<Rightarrow> int (length s) < n | _ \<Rightarrow> False)"

definition longer_than :: "int \<Rightarrow> jsval \<Rightarrow> bool" where
  "longer_than n v = (case v of JStr s \<Rightarrow> n < int (length s) | _ \<Rightarrow> False)"

definition below :: "int \<Rightarrow> jsval \<Rightarrow> bool" where
  "below n v =
     (case v of JNum (Finite x) \<Rightarrow> x < of_int n | JNum NegInf \<Rightarrow> True | _ \<Rightarrow> False)"

definition above :: "int \<Rightarrow> jsval \<Rightarrow> bool" where
  "above n v =
     (case v of JNum (Finite x) \<Rightarrow> of_int n < x | JNum PosInf \<Rightarrow> True | _ \<Rightarrow> False)"

definition member_of :: "string list \<Rightarrow> jsval \<Rightarrow> bool" where
  "member_of allowed v = (case v of JStr s \<Rightarrow> s \<in> set allowed | _ \<Rightarrow> False)"

definition spec_field_violation :: "string \<Rightarrow> rules \<Rightarrow> jsval \<Rightarrow> string option" where
  "spec_field_violation field rules v =
     (if required rules \<and> absent v then
        Some (''Missing required field: '' @ field)
      else if present v \<and> type_rule rules = Some ''string'' \<and> \<not> is_string v then
        Some (''Field '' @ field @ '' must be a string'')
      else if present v \<and> type_rule rules = Some ''number'' \<and> \<not> is_number v then
        Some (''Field '' @ field @ '' must be a number'')
      else if present v \<and> (case minLength rules of Some n \<Rightarrow> shorter_than n v | None \<Rightarrow> False) then
        Some (''Field '' @ field @ '' must be at least '' @ Number_toString (the (minLength rules))
              @ '' characters'')
      else if present v \<and> (case maxLength rules of Some n \<Rightarrow> longer_than n v | None \<Rightarrow> False) then
        Some (''Field '' @ field @ '' must be at most '' @ Number_toString (the (maxLength rules))
              @ '' characters'')
      else if present v \<and> (case min_rule rules of Some n \<Rightarrow> below n v | None \<Rightarrow> False) then
        Some (''Field '' @ field @ '' must be at least '' @ Number_toString (the (min_rule rules)))
      else if present v \<and> (case max_rule rules of Some n \<Rightarrow> above n v | None \<Rightarrow> False) then
        Some (''Field '' @ field @ '' must be at most '' @ Number_toString (the (max_rule rules)))
      else if present v \<and> (case enum rules of Some allowed \<Rightarrow> \<not> member_of allowed v | None \<Rightarrow> False) then
        Some (''Field '' @ field @ '' must be one of: '' @ join '', '' (the (enum rules)))
      else None)"

fun spec_schema_violation :: "(string \<times> rules) list \<Rightarrow> args \<Rightarrow> string option" where
  "spec_schema_violation [] args = None"
| "spec_schema_violation ((field, rules) # rest) args =
     (case spec_field_violation field rules (js_get args field) of
        Some msg \<Rightarrow> Some msg
      | None \<Rightarrow> spec_schema_violation rest args)"

definition spec_validate :: "string \<Rightarrow> args \<Rightarrow> jserror + bool" where
  "spec_validate toolName args =
     (case map_of validationSchemas toolName of
        None \<Rightarrow> Inr True
      | Some schema \<Rightarrow>
          (case spec_schema_violation schema args of
             None \<Rightarrow> Inr True
           | Some msg \<Rightarrow> Inl (McpError InvalidParams msg)))"

definition amended_field_violation :: "string \<Rightarrow> rules \<Rightarrow> jsval \<Rightarrow> string option" where
  "amended_field_violation field rules v =
     (if required rules \<and> absent v then
        Some (''Missing required field: '' @ field)
      else if supplied v \<and> type_rule rules = Some ''string'' \<and> \<not> is_string v then
        Some (''Field '' @ field @ '' must be a string'')
      else if supplied v \<and> type_rule rules = Some ''number'' \<and> \<not> is_number v then
        Some (''Field '' @ field @ '' must be a number'')
      else if supplied v \<and> (case minLength rules of Some n \<Rightarrow> shorter_than n v | None \<Rightarrow> False) then
        Some (''Field '' @ field @ '' must be at least '' @ Number_toString (the (minLength rules))
              @ '' characters'')
      else if supplied v \<and> (case maxLength rules of Some n \<Rightarrow> longer_than n v | None \<Rightarrow> False) then
        Some (''Field '' @ field @ '' must be at most '' @ Number_toString (the (maxLength rules))
              @ '' characters'')
      else if supplied v \<and> (case min_rule rules of Some n \<Rightarrow> below n v | None \<Rightarrow> False) then
        Some (''Field '' @ field @ '' must be at least '' @ Number_toString (the (min_rule rules)))
      else if supplied v \<and> (case max_rule rules of Some n \<Rightarrow> above n v | None \<Rightarrow> False) then
        Some (''Field '' @ field @ '' must be at most '' @ Number_toString (the (max_rule rules)))
      else if supplied v \<and> (case enum rules of Some allowed \<Rightarrow> \<not> member_of allowed v | None \<Rightarrow> False) then
        Some (''Field '' @ field @ '' must be one of: '' @ join '', '' (the (enum rules)))
      else None)"

fun amended_schema_violation :: "(string \<times> rules) list \<Rightarrow> args \<Rightarrow> string option" where
  "amended_schema_violation [] args = None"
| "amended_schema_violation ((field, rules) # rest) args =
     (case amended_field_violation field rules (js_get args field) of
        Some msg \<Rightarrow> Some msg
      | None \<Rightarrow> amended_schema_violation rest args)"

definition amended_validate :: "string \<Rightarrow> args \<Rightarrow> jserror + bool" where
  "amended_validate toolName args =
     (case map_of validationSchemas toolName of
        None \<Rightarrow> Inr True
      | Some schema \<Rightarrow>
          (case amended_schema_violation schema args of
             None \<Rightarrow> Inr True
           | Some msg \<Rightarrow> Inl (McpError InvalidParams msg)))"

text \<open>
  The shape of every registered rule set: length bounds come with the type
  \<^verbatim>\<open>string\<close>, numeric bounds with the type \<^verbatim>\<open>number\<close>, and none of the bounds
  \<^verbatim>\<open>maxLength\<close>, \<^verbatim>\<open>min\<close> and \<^verbatim>\<open>max\<close> is \<open>0\<close>.
\<close>

definition typed_rules :: "rules \<Rightarrow> bool" where
  "typed_rules rules =
     ((minLength rules \<noteq> None \<or> maxLength rules \<noteq> None \<longrightarrow> type_rule rules = Some ''string'')
      \<and> maxLength rules \<noteq> Some 0
      \<and> (min_rule rules \<noteq> None \<or> max_rule rules \<noteq> None \<longrightarrow> type_rule rules = Some ''number'')
      \<and> min_rule rules \<noteq> Some 0 \<and> max_rule rules \<noteq> Some 0)"

section \<open>Properties\<close>

subsection \<open>The retry executor\<close>

lemma backoff_same: "backoff k k = []"
  by (simp add: backoff_def)

lemma backoff_step: "i < k \<Longrightarrow> backoff i k = Attempt i # Wait (RETRY_DELAY_BASE * 2 ^ i) # backoff (Suc i) k"
  by (simp add: backoff_def upt_conv_Cons)

lemma withRetry_from_stop:
  assumes "k < n" "stops_at oper n k"
  shows "withRetry_from oper n k = (oper k, [Attempt k])"
  using assms by (subst withRetry_from.simps) (auto simp: stops_at_def split: sum.splits)

lemma withRetry_from_retry:
  assumes "i < n" "\<not> stops_at oper n i"
  shows "withRetry_from oper n i =
    (fst (withRetry_from oper n (Suc i)),
     Attempt i # Wait (RETRY_DELAY_BASE * 2 ^ i) # snd (withRetry_from oper n (Suc i)))"
  using assms by (subst withRetry_from.simps) (auto simp: stops_at_def Let_def split: sum.splits)

lemma withRetry_from_run:
  assumes "i \<le> k" "k < n" "stops_at oper n k" "\<forall>j. i \<le> j \<and> j < k \<longrightarrow> \<not> stops_at oper n j"
  shows "withRetry_from oper n i = (oper k, backoff i k @ [Attempt k])"
  using assms
proof (induction "k - i" arbitrary: i)
  case 0
  then have "i = k" by simp
  with 0 show ?case by (simp add: withRetry_from_stop backoff_same)
next
  case (Suc d)
  then have lt: "i < k" by simp
  then have ns: "\<not> stops_at oper n i" using Suc.prems by simp
  have "withRetry_from oper n (Suc i) = (oper k, backoff (Suc i) k @ [Attempt k])"
    using Suc lt by (intro Suc.hyps(1)) auto
  then show ?case
    using lt Suc.prems(2) ns by (simp add: withRetry_from_retry backoff_step)
qed

lemma last_stops: "0 < n \<Longrightarrow> stops_at oper n (n - 1)"
  by (simp add: stops_at_def split: sum.splits)

lemma first_stop_exists:
  assumes "0 < n"
  shows "\<exists>k<n. stops_at oper n k \<and> (\<forall>j<k. \<not> stops_at oper n j)"
proof -
  define k where "k = (LEAST k. stops_at oper n k)"
  have s: "stops_at oper n (n - 1)" using assms by (rule last_stops)
  have "stops_at oper n k" unfolding k_def using s by (rule LeastI)
  moreover have "k \<le> n - 1" unfolding k_def using s by (rule Least_le)
  moreover have "\<forall>j<k. \<not> stops_at oper n j" unfolding k_def using not_less_Least by blast
  ultimately show ?thesis using assms by (intro exI[of _ k]) auto
qed

lemma withRetry_run:
  assumes "0 < n"
  shows "\<exists>k<n. withRetry oper n = (oper k, backoff 0 k @ [Attempt k])
           \<and> stops_at oper n k \<and> (\<forall>j<k. \<not> stops_at oper n j)"
proof -
  obtain k where k: "k < n" "stops_at oper n k" "\<forall>j<k. \<not> stops_at oper n j"
    using first_stop_exists[OF assms] by blast
  then have "withRetry oper n = (oper k, backoff 0 k @ [Attempt k])"
    unfolding withRetry_def by (intro withRetry_from_run) auto
  with k show ?thesis by blast
qed

lemma withRetry_zero: "withRetry oper 0 = (Inr Undefined, [])"
  by (simp add: withRetry_def withRetry_from.simps)


lemma backoff_empty: "k \<le> i \<Longrightarrow> backoff i k = []"
  by (simp add: backoff_def)

lemma backoff_split: "i \<le> j \<Longrightarrow> j \<le> k \<Longrightarrow> backoff i k = backoff i j @ backoff j k"
proof -
  assume a: "i \<le> j" "j \<le> k"
  have "[i..<k] = [i..<j] @ [j..<k]" using upt_add_eq_append[of i j "k - j"] a by simp
  then show ?thesis by (simp add: backoff_def)
qed

lemma attempts_backoff: "filter is_Attempt (backoff i k) = map Attempt [i..<k]"
  by (induction "k - i" arbitrary: i) (auto simp: backoff_empty backoff_step upt_conv_Cons)

lemma waits_backoff: "filter is_Wait (backoff i k) = map (\<lambda>j. Wait (RETRY_DELAY_BASE * 2 ^ j)) [i..<k]"
  by (induction "k - i" arbitrary: i) (auto simp: backoff_empty backoff_step upt_conv_Cons)

lemma Attempt_in_backoff: "Attempt j \<in> set (backoff i k) \<longleftrightarrow> i \<le> j \<and> j < k"
  by (auto simp: backoff_def)

lemma backoff_then_attempt:
  assumes "j < k"
  shows "\<exists>pre post. backoff 0 k @ [Attempt k]
           = pre @ [Attempt j, Wait (RETRY_DELAY_BASE * 2 ^ j), Attempt (Suc j)] @ post"
proof -
  have b: "backoff 0 k = backoff 0 j @ Attempt j # Wait (RETRY_DELAY_BASE * 2 ^ j) # backoff (Suc j) k"
    using assms backoff_split[of 0 j k] by (simp add: backoff_step)
  have "\<exists>post. backoff (Suc j) k @ [Attempt k] = Attempt (Suc j) # post"
  proof (cases "Suc j < k")
    case True
    then show ?thesis by (simp add: backoff_step)
  next
    case False
    with assms have "Suc j = k" by simp
    then show ?thesis by (auto simp: backoff_empty)
  qed
  then obtain post where p: "backoff (Suc j) k @ [Attempt k] = Attempt (Suc j) # post" ..
  have "backoff 0 k @ [Attempt k]
      = backoff 0 j @ [Attempt j, Wait (RETRY_DELAY_BASE * 2 ^ j), Attempt (Suc j)] @ post"
    using p by (simp add: b)
  then show ?thesis by blast
qed

text \<open>Every run: it stops at the first index where the attempt succeeds, fails with a
  non-retryable error, or is the last one.\<close>

lemma withRetry_cases:
  assumes "withRetry oper n = (result, trace)"
  shows "(n = 0 \<and> result = Inr Undefined \<and> trace = []) \<or>
         (\<exists>k<n. result = oper k \<and> trace = backoff 0 k @ [Attempt k]
            \<and> stops_at oper n k \<and> (\<forall>j<k. \<not> stops_at oper n j))"
proof (cases "n = 0")
  case True
  with assms show ?thesis by (simp add: withRetry_zero)
next
  case False
  then have "0 < n" by simp
  from withRetry_run[OF this, of oper] assms show ?thesis by auto
qed


text \<open>
  C2. \<^verbatim>\<open>withRetry(operation, maxAttempts)\<close> makes the attempts \<open>0, 1, ...\<close> in order, at
  most \<open>maxAttempts\<close> of them (and the first one whenever \<open>maxAttempts\<close> is positive).
  An attempt that succeeds ends the run with its result. An attempt with index \<open>k\<close>
  before the last that fails with a retryable error is followed by a delay of
  \<open>RETRY_DELAY_BASE * 2 ^ k\<close> milliseconds (1000, then 2000) and then by the attempt
  \<open>k + 1\<close>. When the attempt with index \<open>maxAttempts - 1\<close> fails, its error is thrown and
  nothing follows it.
\<close>

theorem withRetry_contract:
  assumes "withRetry oper maxAttempts = (result, trace)"
  shows "filter is_Attempt trace = map Attempt [0..<length (filter is_Attempt trace)]
       \<and> length (filter is_Attempt trace) \<le> maxAttempts
       \<and> (0 < maxAttempts \<longrightarrow> Attempt 0 \<in> set trace)
       \<and> (Attempt k \<in> set trace \<and> oper k = Inr v \<longrightarrow>
            result = Inr v \<and> last trace = Attempt k)
       \<and> (Attempt k \<in> set trace \<and> oper k = Inl e \<and> \<not> nonRetryable e \<and> Suc k < maxAttempts \<longrightarrow>
            (\<exists>pre post. trace = pre @ [Attempt k, Wait (RETRY_DELAY_BASE * 2 ^ k), Attempt (Suc k)] @ post))
       \<and> (Attempt k \<in> set trace \<and> oper k = Inl e \<and> Suc k = maxAttempts \<longrightarrow>
            result = Inl e \<and> last trace = Attempt k)"
proof -
  from withRetry_cases[OF assms] show ?thesis
  proof
    assume "maxAttempts = 0 \<and> result = Inr Undefined \<and> trace = []"
    then show ?thesis by simp
  next
    assume "\<exists>K<maxAttempts. result = oper K \<and> trace = backoff 0 K @ [Attempt K]
            \<and> stops_at oper maxAttempts K \<and> (\<forall>j<K. \<not> stops_at oper maxAttempts j)"
    then obtain K where K1: "K < maxAttempts" and K2: "result = oper K"
      and K3: "trace = backoff 0 K @ [Attempt K]" and K4: "stops_at oper maxAttempts K"
      and K5: "\<forall>j<K. \<not> stops_at oper maxAttempts j" by blast
    have att: "filter is_Attempt trace = map Attempt [0..<Suc K]"
      using K3 by (simp add: attempts_backoff)
    have mem: "Attempt j \<in> set trace \<longleftrightarrow> j \<le> K" for j
      unfolding K3 by (auto simp: Attempt_in_backoff)
    have lst: "last trace = Attempt K" unfolding K3 by simp
    have c1: "filter is_Attempt trace = map Attempt [0..<length (filter is_Attempt trace)]"
      unfolding att by simp
    have c2: "length (filter is_Attempt trace) \<le> maxAttempts"
      unfolding att using K1 by simp
    have c3: "0 < maxAttempts \<longrightarrow> Attempt 0 \<in> set trace" by (simp add: mem)
    have c4: "Attempt k \<in> set trace \<and> oper k = Inr v \<longrightarrow>
            result = Inr v \<and> last trace = Attempt k"
    proof (intro impI, elim conjE)
      assume a: "Attempt k \<in> set trace" "oper k = Inr v"
      have "stops_at oper maxAttempts k" using a(2) by (simp add: stops_at_def)
      moreover have "k \<le> K" using a(1) by (simp add: mem)
      ultimately have "k = K" using K5 by (cases "k < K") auto
      then show "result = Inr v \<and> last trace = Attempt k" using a(2) K2 lst by simp
    qed
    have c5: "Attempt k \<in> set trace \<and> oper k = Inl e \<and> \<not> nonRetryable e \<and> Suc k < maxAttempts \<longrightarrow>
            (\<exists>pre post. trace = pre @ [Attempt k, Wait (RETRY_DELAY_BASE * 2 ^ k), Attempt (Suc k)] @ post)"
    proof (intro impI, elim conjE)
      assume a: "Attempt k \<in> set trace" "oper k = Inl e" "\<not> nonRetryable e" "Suc k < maxAttempts"
      have "\<not> stops_at oper maxAttempts k" using a(2,3,4) by (auto simp: stops_at_def)
      moreover have "k \<le> K" using a(1) by (simp add: mem)
      ultimately have "k < K" using K4 by (cases "k = K") auto
      then show "\<exists>pre post. trace = pre @ [Attempt k, Wait (RETRY_DELAY_BASE * 2 ^ k), Attempt (Suc k)] @ post"
        unfolding K3 by (rule backoff_then_attempt)
    qed
    have c6: "Attempt k \<in> set trace \<and> oper k = Inl e \<and> Suc k = maxAttempts \<longrightarrow>
            result = Inl e \<and> last trace = Attempt k"
    proof (intro impI, elim conjE)
      assume a: "Attempt k \<in> set trace" "oper k = Inl e" "Suc k = maxAttempts"
      have "k \<le> K" using a(1) by (simp add: mem)
      then have "k = K" using a(3) K1 by simp
      then show "result = Inl e \<and> last trace = Attempt k" using a(2) K2 lst by simp
    qed
    show ?thesis by (intro conjI c1 c2 c3 c4 c5 c6)
  qed
qed

theorem withRetry_contract_witness:
  "withRetry (\<lambda>i. if i < 2 then Inl (Error JUndefined (JNum (Finite 500)) ''boom'') else Inr (Str ''ok'')) MAX_RETRIES
     = (Inr (Str ''ok''), [Attempt 0, Wait 1000, Attempt 1, Wait 2000, Attempt 2])
   \<and> Attempt 1 \<in> set [Attempt 0, Wait 1000, Attempt 1, Wait 2000, Attempt 2]
   \<and> \<not> nonRetryable (Error JUndefined (JNum (Finite 500)) ''boom'')
   \<and> Suc 1 < MAX_RETRIES
   \<and> length (filter is_Attempt [Attempt 0, Wait 1000, Attempt 1, Wait 2000, Attempt 2]) \<le> MAX_RETRIES
   \<and> (\<exists>pre post. [Attempt 0, Wait 1000, Attempt 1, Wait 2000, Attempt 2]
          = pre @ [Attempt 1, Wait (RETRY_DELAY_BASE * 2 ^ 1), Attempt (Suc 1)] @ post)"
proof -
  let ?op = "\<lambda>i::nat. if i < 2 then Inl (Error JUndefined (JNum (Finite 500)) ''boom'') else Inr (Str ''ok'')"
  let ?tr = "[Attempt 0, Wait 1000, Attempt 1, Wait 2000, Attempt 2]"
  have run: "withRetry ?op MAX_RETRIES = (Inr (Str ''ok''), ?tr)"
    by (simp add: withRetry_def withRetry_from.simps MAX_RETRIES_def RETRY_DELAY_BASE_def nonRetryable_def)
  have hyp: "Attempt 1 \<in> set ?tr \<and> ?op 1 = Inl (Error JUndefined (JNum (Finite 500)) ''boom'')
      \<and> \<not> nonRetryable (Error JUndefined (JNum (Finite 500)) ''boom'') \<and> Suc 1 < MAX_RETRIES"
    by (simp add: nonRetryable_def MAX_RETRIES_def)
  from withRetry_contract[OF run, of 1 "Str ''ok''" "Error JUndefined (JNum (Finite 500)) ''boom''"] hyp run
  show ?thesis by blast
qed


text \<open>
  C3. An error whose \<^verbatim>\<open>code\<close> is \<^verbatim>\<open>ENOTFOUND\<close> or whose \<^verbatim>\<open>status\<close> is 401 or 403
  is thrown again at once, whatever the number of attempts left: when the first
  attempt fails with it, the operation has been invoked exactly once and no delay has
  been waited; at any attempt, the error ends the run, with no delay and no attempt
  after it.
\<close>

theorem withRetry_nonretryable:
  assumes "withRetry oper maxAttempts = (result, trace)"
    and "error = Error c s m"
    and "c = JStr ''ENOTFOUND'' \<or> s = JNum (Finite 401) \<or> s = JNum (Finite 403)"
  shows "(0 < maxAttempts \<and> oper 0 = Inl error \<longrightarrow>
            result = Inl error \<and> trace = [Attempt 0])
       \<and> (Attempt k \<in> set trace \<and> oper k = Inl error \<longrightarrow>
            result = Inl error \<and> last trace = Attempt k
            \<and> length (filter is_Attempt trace) = Suc k
            \<and> filter is_Wait trace = map (\<lambda>j. Wait (RETRY_DELAY_BASE * 2 ^ j)) [0..<k])"
proof -
  have nr: "nonRetryable error" using assms(2,3) by (auto simp: nonRetryable_def)
  from withRetry_cases[OF assms(1)] show ?thesis
  proof
    assume "maxAttempts = 0 \<and> result = Inr Undefined \<and> trace = []"
    then show ?thesis by simp
  next
    assume "\<exists>K<maxAttempts. result = oper K \<and> trace = backoff 0 K @ [Attempt K]
            \<and> stops_at oper maxAttempts K \<and> (\<forall>j<K. \<not> stops_at oper maxAttempts j)"
    then obtain K where K1: "K < maxAttempts" and K2: "result = oper K"
      and K3: "trace = backoff 0 K @ [Attempt K]" and K4: "stops_at oper maxAttempts K"
      and K5: "\<forall>j<K. \<not> stops_at oper maxAttempts j" by blast
    have mem: "Attempt j \<in> set trace \<longleftrightarrow> j \<le> K" for j
      unfolding K3 by (auto simp: Attempt_in_backoff)
    have stop: "k = K" if "Attempt k \<in> set trace" "oper k = Inl error" for k
    proof -
      have "stops_at oper maxAttempts k" using that(2) nr by (simp add: stops_at_def)
      moreover have "k \<le> K" using that(1) by (simp add: mem)
      ultimately show ?thesis using K5 by (cases "k < K") auto
    qed
    have first: "0 < maxAttempts \<and> oper 0 = Inl error \<longrightarrow>
            result = Inl error \<and> trace = [Attempt 0]"
    proof (intro impI, elim conjE)
      assume a: "oper 0 = Inl error"
      have "Attempt 0 \<in> set trace" by (simp add: mem)
      then have "K = 0" using stop[of 0] a by simp
      then show "result = Inl error \<and> trace = [Attempt 0]"
        using a K2 K3 by (simp add: backoff_empty)
    qed
    have any: "Attempt k \<in> set trace \<and> oper k = Inl error \<longrightarrow>
            result = Inl error \<and> last trace = Attempt k
            \<and> length (filter is_Attempt trace) = Suc k
            \<and> filter is_Wait trace = map (\<lambda>j. Wait (RETRY_DELAY_BASE * 2 ^ j)) [0..<k]"
    proof (intro impI, elim conjE)
      assume a: "Attempt k \<in> set trace" "oper k = Inl error"
      have "k = K" using a by (rule stop)
      then show "result = Inl error \<and> last trace = Attempt k
            \<and> length (filter is_Attempt trace) = Suc k
            \<and> filter is_Wait trace = map (\<lambda>j. Wait (RETRY_DELAY_BASE * 2 ^ j)) [0..<k]"
        using a(2) K2 unfolding K3 by (simp add: attempts_backoff waits_backoff)
    qed
    show ?thesis by (intro conjI first any)
  qed
qed

theorem withRetry_nonretryable_witness:
  "withRetry (\<lambda>i. Inl (Error JUndefined (JNum (Finite 401)) ''Unauthorized'')) MAX_RETRIES
     = (Inl (Error JUndefined (JNum (Finite 401)) ''Unauthorized''), [Attempt 0])
   \<and> 0 < MAX_RETRIES"
proof -
  let ?e = "Error JUndefined (JNum (Finite 401)) ''Unauthorized''"
  obtain result trace where run: "withRetry (\<lambda>i. Inl ?e) MAX_RETRIES = (result, trace)"
    by (cases "withRetry (\<lambda>i. Inl ?e) MAX_RETRIES")
  have pos: "0 < MAX_RETRIES" by (simp add: MAX_RETRIES_def)
  from withRetry_nonretryable[OF run, of ?e JUndefined "JNum (Finite 401)" "''Unauthorized''" 0] pos
  have "result = Inl ?e \<and> trace = [Attempt 0]" by simp
  with run pos show ?thesis by simp
qed

subsection \<open>The response cache\<close>

lemma length_update_ge: "length al \<le> length (AList.update k v al)"
  by (induction al) auto

lemma map_of_sweep:
  assumes "distinct (map fst al)"
  shows "map_of (filter (\<lambda>(k, v). P v) al) k =
         (case map_of al k of Some v \<Rightarrow> if P v then Some v else None | None \<Rightarrow> None)"
  using assms
proof (induction al)
  case Nil
  then show ?case by simp
next
  case (Cons p al)
  obtain k' v' where p: "p = (k', v')" by (cases p)
  from Cons.prems p have notin: "k' \<notin> fst ` set al" by simp
  then have none: "map_of al k' = None" by (simp add: map_of_eq_None_iff)
  from Cons have IH: "map_of (filter (\<lambda>(k, v). P v) al) k =
         (case map_of al k of Some v \<Rightarrow> if P v then Some v else None | None \<Rightarrow> None)" by simp
  show ?case using p IH none by (auto split: option.splits)
qed

lemma distinct_sweep: "distinct (map fst al) \<Longrightarrow> distinct (map fst (filter P al))"
  by (simp add: distinct_map_filter)

lemma getCachedResponse_cases:
  "(case map_of cache k of
      Some e \<Rightarrow> getCachedResponse t cache k = (if t - timestamp e < CACHE_TTL then data e else Null)
    | None \<Rightarrow> getCachedResponse t cache k = Null)"
  by (simp add: getCachedResponse_def split: option.splits)

lemma boundary_cache_length: "length boundary_cache = 1001"
  by (simp add: boundary_cache_def)

lemma boundary_cache_distinct: "distinct (map fst boundary_cache)"
proof -
  have "inj_on (\<lambda>i. replicate (Suc i) CHR ''k'') A" for A :: "nat set"
    by (rule inj_onI) (metis length_replicate nat.inject)
  then have "distinct (map (\<lambda>i. replicate (Suc i) CHR ''k'') [0..<1000])"
    by (simp add: distinct_map)
  moreover have "''stale'' \<notin> (\<lambda>i. replicate (Suc i) CHR ''k'') ` A" for A :: "nat set"
    by auto
  ultimately show ?thesis by (simp add: boundary_cache_def comp_def)
qed

text \<open>
  C5, as amended. A lookup returns the stored data when the key has an entry whose age
  is strictly less than \<^const>\<open>CACHE_TTL\<close>, and \<^verbatim>\<open>null\<close> otherwise. A store inserts
  or overwrites the entry of the key, stamped with the current time; when the number of
  entries exceeds 1000 right after that, it removes exactly the entries whose age is
  strictly greater than \<^const>\<open>CACHE_TTL\<close>, and otherwise removes nothing. Keys stay
  distinct.
\<close>

theorem cache_contract:
  assumes "distinct (map fst cache)"
  shows "(case map_of cache k of
            Some e \<Rightarrow> getCachedResponse t cache k = (if t - timestamp e < CACHE_TTL then data e else Null)
          | None \<Rightarrow> getCachedResponse t cache k = Null)
       \<and> (length (AList.update key \<lparr>data = d, timestamp = now\<rparr> cache) \<le> 1000 \<longrightarrow>
            map_of (setCachedResponse now now' cache key d)
              = (map_of cache)(key \<mapsto> \<lparr>data = d, timestamp = now\<rparr>))
       \<and> (length (AList.update key \<lparr>data = d, timestamp = now\<rparr> cache) > 1000 \<longrightarrow>
            map_of (setCachedResponse now now' cache key d)
              = (\<lambda>k. case ((map_of cache)(key \<mapsto> \<lparr>data = d, timestamp = now\<rparr>)) k of
                       Some e \<Rightarrow> if now' - timestamp e > CACHE_TTL then None else Some e
                     | None \<Rightarrow> None))
       \<and> distinct (map fst (setCachedResponse now now' cache key d))"
proof -
  let ?new = "\<lparr>data = d, timestamp = now\<rparr>"
  let ?c1 = "AList.update key ?new cache"
  have d1: "distinct (map fst ?c1)" using assms by (rule distinct_update)
  have m1: "map_of ?c1 = (map_of cache)(key \<mapsto> ?new)" by (rule update_conv')
  have small: "length ?c1 \<le> 1000 \<longrightarrow> map_of (setCachedResponse now now' cache key d) = (map_of cache)(key \<mapsto> ?new)"
    by (simp add: setCachedResponse_def Let_def m1)
  have big: "length ?c1 > 1000 \<longrightarrow>
            map_of (setCachedResponse now now' cache key d)
              = (\<lambda>k. case ((map_of cache)(key \<mapsto> ?new)) k of
                       Some e \<Rightarrow> if now' - timestamp e > CACHE_TTL then None else Some e
                     | None \<Rightarrow> None)"
  proof
    assume g: "length ?c1 > 1000"
    have "map_of (filter (\<lambda>(k, v). \<not> timestamp v < now' - CACHE_TTL) ?c1) k
        = (case (map_of ?c1) k of
             Some e \<Rightarrow> if now' - timestamp e > CACHE_TTL then None else Some e | None \<Rightarrow> None)" for k
      unfolding map_of_sweep[OF d1] by (auto split: option.splits)
    then show "map_of (setCachedResponse now now' cache key d)
              = (\<lambda>k. case ((map_of cache)(key \<mapsto> ?new)) k of
                       Some e \<Rightarrow> if now' - timestamp e > CACHE_TTL then None else Some e
                     | None \<Rightarrow> None)"
      using g unfolding m1[symmetric] by (simp add: setCachedResponse_def Let_def fun_eq_iff)
  qed
  have dist: "distinct (map fst (setCachedResponse now now' cache key d))"
    using d1 by (simp add: setCachedResponse_def Let_def distinct_sweep)
  show ?thesis by (intro conjI getCachedResponse_cases small big dist)
qed

theorem cache_contract_witness:
  "distinct (map fst boundary_cache)
   \<and> 1000 < length (AList.update ''new'' \<lparr>data = Str ''v'', timestamp = 300001\<rparr> boundary_cache)
   \<and> map_of (setCachedResponse 300001 300001 boundary_cache ''new'' (Str ''v'')) ''stale'' = None
   \<and> map_of (setCachedResponse 300001 300001 boundary_cache ''new'' (Str ''v'')) ''new''
        = Some \<lparr>data = Str ''v'', timestamp = 300001\<rparr>
   \<and> map_of (setCachedResponse 300001 300001 boundary_cache ''new'' (Str ''v'')) ''k''
        = Some \<lparr>data = Str ''y'', timestamp = 300000\<rparr>
   \<and> getCachedResponse 300000 boundary_cache ''stale'' = Null
   \<and> getCachedResponse 299999 boundary_cache ''stale'' = Str ''x''"
proof -
  let ?new = "\<lparr>data = Str ''v'', timestamp = 300001\<rparr>"
  have len: "1000 < length (AList.update ''new'' ?new boundary_cache)"
    using length_update_ge[of boundary_cache "''new''" ?new] by (simp add: boundary_cache_length)
  have st: "map_of boundary_cache ''stale'' = Some \<lparr>data = Str ''x'', timestamp = 0\<rparr>"
    by (simp add: boundary_cache_def)
  have k: "map_of boundary_cache ''k'' = Some \<lparr>data = Str ''y'', timestamp = 300000\<rparr>"
  proof -
    have "(''k'', \<lparr>data = Str ''y'', timestamp = 300000\<rparr>) \<in> set boundary_cache"
      by (auto simp: boundary_cache_def intro!: image_eqI[where x = 0])
    with boundary_cache_distinct show ?thesis by (rule map_of_is_SomeI)
  qed
  have sw: "map_of (setCachedResponse 300001 300001 boundary_cache ''new'' (Str ''v''))
      = (\<lambda>k. case ((map_of boundary_cache)(''new'' \<mapsto> ?new)) k of
                Some e \<Rightarrow> if 300001 - timestamp e > CACHE_TTL then None else Some e
              | None \<Rightarrow> None)"
    using cache_contract[OF boundary_cache_distinct, where k = "''stale''" and t = 0 and key = "''new''"
          and d = "Str ''v''" and now = 300001 and now' = 300001,
        THEN conjunct2, THEN conjunct2, THEN conjunct1] len by (rule mp)
  have g1: "getCachedResponse 300000 boundary_cache ''stale'' = Null"
    using cache_contract[OF boundary_cache_distinct, where k = "''stale''" and t = 300000, THEN conjunct1] st
    by (simp add: CACHE_TTL_def)
  have g2: "getCachedResponse 299999 boundary_cache ''stale'' = Str ''x''"
    using cache_contract[OF boundary_cache_distinct, where k = "''stale''" and t = 299999, THEN conjunct1] st
    by (simp add: CACHE_TTL_def)
  show ?thesis
    unfolding sw using len st k g1 g2 boundary_cache_distinct by (simp add: CACHE_TTL_def)
qed

text \<open>
  The sweep as C5 states it (every entry whose age is at least the TTL goes, only fresh
  entries stay) fails at the boundary: an entry whose age is exactly
  \<^const>\<open>CACHE_TTL\<close> survives a sweep, although a lookup no longer serves it.
\<close>

theorem sweep_keeps_boundary_entry:
  "1000 < length (AList.update ''new'' \<lparr>data = Str ''v'', timestamp = 300000\<rparr> boundary_cache)
   \<and> map_of boundary_cache ''stale'' = Some \<lparr>data = Str ''x'', timestamp = 0\<rparr>
   \<and> CACHE_TTL \<le> 300000 - 0
   \<and> map_of (setCachedResponse 300000 300000 boundary_cache ''new'' (Str ''v'')) ''stale''
        = Some \<lparr>data = Str ''x'', timestamp = 0\<rparr>
   \<and> getCachedResponse 300000 (setCachedResponse 300000 300000 boundary_cache ''new'' (Str ''v'')) ''stale'' = Null"
proof -
  let ?new = "\<lparr>data = Str ''v'', timestamp = 300000\<rparr>"
  have len: "1000 < length (AList.update ''new'' ?new boundary_cache)"
    using length_update_ge[of boundary_cache "''new''" ?new] by (simp add: boundary_cache_length)
  have st: "map_of boundary_cache ''stale'' = Some \<lparr>data = Str ''x'', timestamp = 0\<rparr>"
    by (simp add: boundary_cache_def)
  have kept: "map_of (setCachedResponse 300000 300000 boundary_cache ''new'' (Str ''v'')) ''stale''
        = Some \<lparr>data = Str ''x'', timestamp = 0\<rparr>"
    unfolding setCachedResponse_def Let_def using len
    by (simp add: map_of_sweep[OF distinct_update[OF boundary_cache_distinct]] update_conv' st CACHE_TTL_def)
  show ?thesis using len st kept by (simp add: getCachedResponse_def CACHE_TTL_def)
qed

subsection \<open>The request handler\<close>

lemma schema_names: "map_of validationSchemas name = Some schema \<Longrightarrow> name \<in> set handlerNames"
  by (auto simp: validationSchemas_def handlerNames_def split: if_splits)

lemma validateInput_unknown: "name \<notin> set handlerNames \<Longrightarrow> validateInput rt name args = Inr True"
  using schema_names[of name] by (cases "map_of validationSchemas name") (auto simp: validateInput_def)

lemma dispatch_unknown:
  "name \<notin> set handlerNames \<Longrightarrow>
   dispatch w name = (Inl (McpError MethodNotFound (''Unknown tool: '' @ name)), [])"
  by (simp add: dispatch_def handlerNames_def)

lemma cacheable_known: "cacheable name \<Longrightarrow> name \<in> set handlerNames"
  by (auto simp: cacheable_def handlerNames_def)

lemma key_nope: "cacheKey rt ''nope'' [] = ''nope:{}''"
  by (simp add: cacheKey_def)

lemma callTool_cases:
  "(\<exists>e. validateInput rt name args = Inl e \<and> callTool rt w cache name args = (Inl (catch_clause e), cache, []))
 \<or> (\<exists>ok. validateInput rt name args = Inr ok \<and> cacheable name
        \<and> truthy (getCachedResponse (now_lookup w) cache (cacheKey rt name args))
        \<and> callTool rt w cache name args =
            (Inr (Content (Str (''[CACHED] '' @ to_string (getCachedResponse (now_lookup w) cache (cacheKey rt name args))))),
             cache, [CacheGet (cacheKey rt name args)]))
 \<or> (\<exists>ok e tr. validateInput rt name args = Inr ok
        \<and> \<not> (truthy (getCachedResponse (now_lookup w) cache (cacheKey rt name args)) \<and> cacheable name)
        \<and> dispatch w name = (Inl e, tr)
        \<and> callTool rt w cache name args = (Inl (catch_clause e), cache, CacheGet (cacheKey rt name args) # tr))
 \<or> (\<exists>ok r tr. validateInput rt name args = Inr ok
        \<and> \<not> (truthy (getCachedResponse (now_lookup w) cache (cacheKey rt name args)) \<and> cacheable name)
        \<and> dispatch w name = (Inr r, tr)
        \<and> callTool rt w cache name args =
            (Inr (Content r),
             if cacheable name then setCachedResponse (now_store w) (now_sweep w) cache (cacheKey rt name args) r else cache,
             CacheGet (cacheKey rt name args) # tr @ (if cacheable name then [CacheSet (cacheKey rt name args)] else [])))"
proof (cases "validateInput rt name args")
  case (Inl e)
  then show ?thesis by (simp add: callTool_def)
next
  case (Inr ok)
  show ?thesis
  proof (cases "truthy (getCachedResponse (now_lookup w) cache (cacheKey rt name args)) \<and> cacheable name")
    case True
    with Inr show ?thesis by (simp add: callTool_def Let_def)
  next
    case False
    obtain r tr where d: "dispatch w name = (r, tr)" by (cases "dispatch w name")
    show ?thesis
    proof (cases r)
      case (Inl e)
      with Inr False d show ?thesis by (simp add: callTool_def Let_def)
    next
      case r: (Inr v)
      with Inr False d show ?thesis by (simp add: callTool_def Let_def)
    qed
  qed
qed


lemma withRetry_events: "ev \<in> set (snd (withRetry oper n)) \<Longrightarrow> is_Attempt ev \<or> is_Wait ev"
proof -
  assume a: "ev \<in> set (snd (withRetry oper n))"
  obtain result trace where r: "withRetry oper n = (result, trace)" by (cases "withRetry oper n")
  from withRetry_cases[OF r] a r show ?thesis
    by (auto simp: backoff_def)
qed

lemma dispatch_events:
  "ev \<in> set (snd (dispatch w name)) \<Longrightarrow> is_Attempt ev \<or> is_Wait ev \<or> is_HandlerCall ev"
  by (auto simp: dispatch_def called_def handleAskAthena_def handleGetSystemStats_def
      handleAnalyzeCode_def handleGenerateCode_def handleImageGenerate_def handleWebRequest_def
      dest: withRetry_events split: if_splits)

lemma dispatch_no_CacheSet: "CacheSet k \<notin> set (snd (dispatch w name))"
  using dispatch_events[of "CacheSet k" w name] by auto

lemma validate_hi: "validateInput rt ''ask_athena'' [(''prompt'', JStr ''hi'')] = Inr True"
  by (simp add: validateInput_def validationSchemas_def validateField_def no_rules_def js_get_def
      minLength_violated_def maxLength_violated_def min_violated_def max_violated_def
      enum_violated_def js_lt_def js_gt_def)

lemma retry_always_failing:
  "\<not> nonRetryable e \<Longrightarrow>
   withRetry (\<lambda>i. Inl e) MAX_RETRIES
     = (Inl e, [Attempt 0, Wait 1000, Attempt 1, Wait 2000, Attempt 2])"
  by (simp add: withRetry_def withRetry_from.simps MAX_RETRIES_def RETRY_DELAY_BASE_def)

lemma retry_succeeding: "withRetry (\<lambda>i. Inr r) MAX_RETRIES = (Inr r, [Attempt 0])"
  by (simp add: withRetry_def withRetry_from.simps MAX_RETRIES_def)

lemma dispatch_known:
  assumes "name \<in> set handlerNames" "usesOpenAI name \<longrightarrow> openai w"
  shows "dispatch w name = called name (withRetry (operation w) MAX_RETRIES)"
  using assms
  by (auto simp: dispatch_def handlerNames_def usesOpenAI_def handleAskAthena_def
      handleGetSystemStats_def handleAnalyzeCode_def handleGenerateCode_def
      handleImageGenerate_def handleWebRequest_def)

lemma dispatch_no_client:
  assumes "usesOpenAI name" "\<not> openai w"
  shows "dispatch w name = (Inl openai_missing, [HandlerCall name])"
  using assms
  by (auto simp: dispatch_def usesOpenAI_def called_def handleAskAthena_def
      handleAnalyzeCode_def handleGenerateCode_def handleImageGenerate_def)

lemma stored_entry:
  assumes "distinct (map fst cache)" "now' - now \<le> CACHE_TTL"
  shows "map_of (setCachedResponse now now' cache key d) key = Some \<lparr>data = d, timestamp = now\<rparr>"
proof -
  let ?c1 = "AList.update key \<lparr>data = d, timestamp = now\<rparr> cache"
  have d1: "distinct (map fst ?c1)" using assms(1) by (rule distinct_update)
  show ?thesis using assms(2)
    by (simp add: setCachedResponse_def Let_def map_of_sweep[OF d1] update_conv')
qed

lemma withRetry_no_HandlerCall: "filter is_HandlerCall (snd (withRetry oper n)) = []"
proof -
  have "\<not> is_HandlerCall ev" if "ev \<in> set (snd (withRetry oper n))" for ev
    using withRetry_events[OF that] by (cases ev) auto
  then show ?thesis by (simp add: filter_empty_conv)
qed

lemma dispatch_one_HandlerCall:
  "name \<in> set handlerNames \<Longrightarrow> filter is_HandlerCall (snd (dispatch w name)) = [HandlerCall name]"
  by (auto simp: dispatch_def handlerNames_def called_def handleAskAthena_def handleGetSystemStats_def
      handleAnalyzeCode_def handleGenerateCode_def handleImageGenerate_def handleWebRequest_def
      withRetry_no_HandlerCall)

text \<open>
  C7, as amended. An invocation whose tool name has no case in the \<^verbatim>\<open>switch\<close> throws
  a \<^verbatim>\<open>MethodNotFound\<close> error that carries the name. No schema is registered for such a
  name, so no validation rule is evaluated; no handler and no retry loop is entered;
  nothing is stored and the cache is unchanged. The one cache access is the lookup that
  precedes the dispatch, whose result is not used.
\<close>

theorem unknown_tool:
  assumes "name \<notin> set handlerNames"
  shows "callTool rt w cache name args =
           (Inl (McpError MethodNotFound (''Unknown tool: '' @ name)), cache,
            [CacheGet (cacheKey rt name args)])
       \<and> map_of validationSchemas name = None"
proof -
  have nc: "\<not> cacheable name" using assms cacheable_known by blast
  have ns: "map_of validationSchemas name = None"
    using assms schema_names[of name] by (cases "map_of validationSchemas name") auto
  show ?thesis
    using nc ns by (simp add: callTool_def validateInput_unknown[OF assms] dispatch_unknown[OF assms] Let_def)
qed

theorem unknown_tool_witness:
  "''nope'' \<notin> set handlerNames
   \<and> callTool some_runtime (steady_world (Inr (Str ''x'')) 0) [] ''nope'' []
       = (Inl (McpError MethodNotFound ''Unknown tool: nope''), [], [CacheGet ''nope:{}''])"
  using unknown_tool[of "''nope''" some_runtime "steady_world (Inr (Str ''x'')) 0" "[]" "[]"]
  by (simp add: handlerNames_def key_nope)

text \<open>
  C7 as stated (no cache lookup occurs) fails: the lookup is made before the name is
  dispatched.
\<close>

theorem unknown_tool_looks_up_cache:
  "''nope'' \<notin> set handlerNames
   \<and> CacheGet ''nope:{}'' \<in> set (snd (snd (callTool some_runtime (steady_world (Inr (Str ''x'')) 0) [] ''nope'' [])))"
  by (simp add: handlerNames_def callTool_def validateInput_def validationSchemas_def key_nope
      getCachedResponse_def dispatch_def cacheable_def)

text \<open>
  C9. An invocation that ends in an error leaves the cache as it was and stores no
  entry; when the validation fails, the error is thrown before any cache access (the
  invocation has no event at all).
\<close>

theorem errors_leave_cache:
  assumes "callTool rt w cache name args = (Inl err, cache', tr)"
  shows "cache' = cache \<and> CacheSet k \<notin> set tr
       \<and> (validateInput rt name args = Inl e \<longrightarrow> tr = [] \<and> err = catch_clause e)"
proof -
  have ns: "CacheSet k \<notin> set tr'" if "dispatch w name = (r, tr')" for r tr'
    using dispatch_no_CacheSet[of k w name] that by simp
  from callTool_cases[of rt name args w cache] assms ns show ?thesis
    by (elim disjE exE conjE) auto
qed

theorem errors_leave_cache_witness:
  "callTool some_runtime (steady_world (Inl (Error JUndefined (JNum (Finite 500)) ''boom'')) 7)
      [(''k'', \<lparr>data = Str ''v'', timestamp = 0\<rparr>)] ''ask_athena'' [(''prompt'', JStr ''hi'')]
     = (Inl (McpError InternalError ''Tool execution failed: boom''),
        [(''k'', \<lparr>data = Str ''v'', timestamp = 0\<rparr>)],
        [CacheGet (cacheKey some_runtime ''ask_athena'' [(''prompt'', JStr ''hi'')]),
         HandlerCall ''ask_athena'', Attempt 0, Wait 1000, Attempt 1, Wait 2000, Attempt 2])
   \<and> callTool some_runtime (steady_world (Inr (Str ''x'')) 7)
      [(''k'', \<lparr>data = Str ''v'', timestamp = 0\<rparr>)] ''ask_athena'' []
     = (Inl (McpError InvalidParams ''Missing required field: prompt''),
        [(''k'', \<lparr>data = Str ''v'', timestamp = 0\<rparr>)], [])"
proof -
  let ?c = "[(''k'', \<lparr>data = Str ''v'', timestamp = 0\<rparr>)]"
  let ?e = "Error JUndefined (JNum (Finite 500)) ''boom''"
  obtain err c' tr where run:
    "callTool some_runtime (steady_world (Inl ?e) 7) ?c ''ask_athena'' [(''prompt'', JStr ''hi'')]
       = (Inl err, c', tr)"
    and err: "err = McpError InternalError ''Tool execution failed: boom''"
    and tr: "tr = [CacheGet (cacheKey some_runtime ''ask_athena'' [(''prompt'', JStr ''hi'')]),
         HandlerCall ''ask_athena'', Attempt 0, Wait 1000, Attempt 1, Wait 2000, Attempt 2]"
    by (simp add: callTool_def validate_hi Let_def getCachedResponse_def cacheKey_def dispatch_def
        called_def handleAskAthena_def steady_world_def retry_always_failing nonRetryable_def)
  obtain err2 c2 tr2 where run2:
    "callTool some_runtime (steady_world (Inr (Str ''x'')) 7) ?c ''ask_athena'' [] = (Inl err2, c2, tr2)"
    and v2: "validateInput some_runtime ''ask_athena'' [] = Inl (McpError InvalidParams ''Missing required field: prompt'')"
    by (simp add: callTool_def validateInput_def validationSchemas_def validateField_def no_rules_def
        js_get_def invalid_def)
  from errors_leave_cache[OF run] have "c' = ?c" by simp
  moreover from errors_leave_cache[OF run2, of _ "McpError InvalidParams ''Missing required field: prompt''"] v2
  have "c2 = ?c \<and> tr2 = [] \<and> err2 = McpError InvalidParams ''Missing required field: prompt''" by simp
  ultimately show ?thesis using run run2 err tr by simp
qed

text \<open>
  C6, as amended. For every registered tool, on a server with or without an OpenAI
  client: when the handler throws what its retry loop threw (after the last attempt, or
  at once for a non-retryable error), the invocation throws an \<^verbatim>\<open>InternalError\<close> whose
  message is \<^verbatim>\<open>Tool execution failed: \<close> followed by the message of the cause,
  unchanged; a cause that is itself an \<^verbatim>\<open>McpError\<close> is thrown as it is, and so is the
  \<^verbatim>\<open>InternalError\<close> of a handler that finds no OpenAI client. The cache is unchanged.
\<close>

theorem handler_failure_surfaces:
  assumes "name \<in> set handlerNames"
    and "validateInput rt name args = Inr ok"
    and "\<not> (truthy (getCachedResponse (now_lookup w) cache (cacheKey rt name args)) \<and> cacheable name)"
  shows "((usesOpenAI name \<longrightarrow> openai w)
            \<and> withRetry (operation w) MAX_RETRIES = (Inl cause, tr) \<and> cause = Error c s m \<longrightarrow>
            callTool rt w cache name args
              = (Inl (McpError InternalError (''Tool execution failed: '' @ m)), cache,
                 CacheGet (cacheKey rt name args) # HandlerCall name # tr))
       \<and> ((usesOpenAI name \<longrightarrow> openai w)
            \<and> withRetry (operation w) MAX_RETRIES = (Inl cause, tr) \<and> cause = McpError kind m \<longrightarrow>
            callTool rt w cache name args
              = (Inl (McpError kind m), cache,
                 CacheGet (cacheKey rt name args) # HandlerCall name # tr))
       \<and> (usesOpenAI name \<and> \<not> openai w \<longrightarrow>
            callTool rt w cache name args
              = (Inl (McpError InternalError ''OpenAI client not initialized. Please check your API key.''),
                 cache, [CacheGet (cacheKey rt name args), HandlerCall name]))"
proof -
  have run: "callTool rt w cache name args
      = (Inl (catch_clause cause), cache, CacheGet (cacheKey rt name args) # HandlerCall name # tr)"
    if "usesOpenAI name \<longrightarrow> openai w" "withRetry (operation w) MAX_RETRIES = (Inl cause, tr)"
  proof -
    have d: "dispatch w name = (Inl cause, HandlerCall name # tr)"
      using dispatch_known[OF assms(1) that(1)] that(2) by (simp add: called_def)
    show ?thesis using assms(2,3) d by (simp add: callTool_def Let_def)
  qed
  have c1: "(usesOpenAI name \<longrightarrow> openai w)
            \<and> withRetry (operation w) MAX_RETRIES = (Inl cause, tr) \<and> cause = Error c s m \<longrightarrow>
            callTool rt w cache name args
              = (Inl (McpError InternalError (''Tool execution failed: '' @ m)), cache,
                 CacheGet (cacheKey rt name args) # HandlerCall name # tr)"
    using run by auto
  have c2: "(usesOpenAI name \<longrightarrow> openai w)
            \<and> withRetry (operation w) MAX_RETRIES = (Inl cause, tr) \<and> cause = McpError kind m \<longrightarrow>
            callTool rt w cache name args
              = (Inl (McpError kind m), cache,
                 CacheGet (cacheKey rt name args) # HandlerCall name # tr)"
    using run by auto
  have c3: "usesOpenAI name \<and> \<not> openai w \<longrightarrow>
            callTool rt w cache name args
              = (Inl (McpError InternalError ''OpenAI client not initialized. Please check your API key.''),
                 cache, [CacheGet (cacheKey rt name args), HandlerCall name])"
  proof (intro impI, elim conjE)
    assume a: "usesOpenAI name" "\<not> openai w"
    have d: "dispatch w name = (Inl openai_missing, [HandlerCall name])"
      using a by (rule dispatch_no_client)
    show "callTool rt w cache name args
              = (Inl (McpError InternalError ''OpenAI client not initialized. Please check your API key.''),
                 cache, [CacheGet (cacheKey rt name args), HandlerCall name])"
      using assms(2,3) d by (simp add: callTool_def Let_def openai_missing_def)
  qed
  show ?thesis by (intro conjI c1 c2 c3)
qed

theorem handler_failure_surfaces_witness:
  "''get_system_stats'' \<in> set handlerNames
   \<and> validateInput some_runtime ''get_system_stats'' [] = Inr True
   \<and> \<not> openai (no_client_world (Inl (Error JUndefined (JNum (Finite 500)) ''boom'')) 0)
   \<and> withRetry (operation (no_client_world (Inl (Error JUndefined (JNum (Finite 500)) ''boom'')) 0)) MAX_RETRIES
       = (Inl (Error JUndefined (JNum (Finite 500)) ''boom''), [Attempt 0, Wait 1000, Attempt 1, Wait 2000, Attempt 2])
   \<and> callTool some_runtime (no_client_world (Inl (Error JUndefined (JNum (Finite 500)) ''boom'')) 0) []
        ''get_system_stats'' []
       = (Inl (McpError InternalError ''Tool execution failed: boom''), [],
          [CacheGet (cacheKey some_runtime ''get_system_stats'' []), HandlerCall ''get_system_stats'',
           Attempt 0, Wait 1000, Attempt 1, Wait 2000, Attempt 2])
   \<and> ''ask_athena'' \<in> set handlerNames
   \<and> validateInput some_runtime ''ask_athena'' [(''prompt'', JStr ''hi'')] = Inr True
   \<and> usesOpenAI ''ask_athena''
   \<and> callTool some_runtime (no_client_world (Inr (Str ''x'')) 0) []
        ''ask_athena'' [(''prompt'', JStr ''hi'')]
       = (Inl (McpError InternalError ''OpenAI client not initialized. Please check your API key.''), [],
          [CacheGet (cacheKey some_runtime ''ask_athena'' [(''prompt'', JStr ''hi'')]),
           HandlerCall ''ask_athena''])"
proof -
  let ?e = "Error JUndefined (JNum (Finite 500)) ''boom''"
  let ?w = "no_client_world (Inl ?e) 0"
  let ?w2 = "no_client_world (Inr (Str ''x'')) 0"
  have h1: "''get_system_stats'' \<in> set handlerNames" by (simp add: handlerNames_def)
  have h2: "validateInput some_runtime ''get_system_stats'' [] = Inr True"
    by (simp add: validateInput_def validationSchemas_def)
  have h3: "\<not> (truthy (getCachedResponse (now_lookup ?w) [] (cacheKey some_runtime ''get_system_stats'' []))
              \<and> cacheable ''get_system_stats'')"
    by (simp add: getCachedResponse_def)
  have h4: "usesOpenAI ''get_system_stats'' \<longrightarrow> openai ?w" by (simp add: usesOpenAI_def)
  have h4': "\<not> openai ?w" by (simp add: no_client_world_def)
  have h5: "withRetry (operation ?w) MAX_RETRIES = (Inl ?e, [Attempt 0, Wait 1000, Attempt 1, Wait 2000, Attempt 2])"
    by (simp add: no_client_world_def retry_always_failing nonRetryable_def)
  have r1: "callTool some_runtime ?w [] ''get_system_stats'' []
       = (Inl (McpError InternalError (''Tool execution failed: '' @ ''boom'')), [],
          CacheGet (cacheKey some_runtime ''get_system_stats'' []) # HandlerCall ''get_system_stats''
           # [Attempt 0, Wait 1000, Attempt 1, Wait 2000, Attempt 2])"
    using handler_failure_surfaces[OF h1 h2 h3, where cause = ?e and c = JUndefined
        and s = "JNum (Finite 500)" and m = "''boom''"
        and tr = "[Attempt 0, Wait 1000, Attempt 1, Wait 2000, Attempt 2]", THEN conjunct1] h4 h5
    by blast
  have k1: "''ask_athena'' \<in> set handlerNames" by (simp add: handlerNames_def)
  have k2: "validateInput some_runtime ''ask_athena'' [(''prompt'', JStr ''hi'')] = Inr True"
    by (rule validate_hi)
  have k3: "\<not> (truthy (getCachedResponse (now_lookup ?w2) [] (cacheKey some_runtime ''ask_athena'' [(''prompt'', JStr ''hi'')]))
              \<and> cacheable ''ask_athena'')"
    by (simp add: getCachedResponse_def)
  have k4: "usesOpenAI ''ask_athena''" by (simp add: usesOpenAI_def)
  have k5: "\<not> openai ?w2" by (simp add: no_client_world_def)
  have r2: "callTool some_runtime ?w2 [] ''ask_athena'' [(''prompt'', JStr ''hi'')]
       = (Inl (McpError InternalError ''OpenAI client not initialized. Please check your API key.''), [],
          [CacheGet (cacheKey some_runtime ''ask_athena'' [(''prompt'', JStr ''hi'')]),
           HandlerCall ''ask_athena''])"
    using handler_failure_surfaces[OF k1 k2 k3, THEN conjunct2, THEN conjunct2] k4 k5 by blast
  show ?thesis using h1 h2 h4' h5 r1 k1 k2 k4 r2 by simp
qed

text \<open>
  C6 as stated (the message is the message of the cause) fails: the message carries a
  prefix.
\<close>

theorem internal_error_message_is_prefixed:
  "fst (callTool some_runtime (steady_world (Inl (Error JUndefined (JNum (Finite 500)) ''boom'')) 0) []
        ''get_system_stats'' [])
     = Inl (McpError InternalError ''Tool execution failed: boom'')
   \<and> error_message (McpError InternalError ''Tool execution failed: boom'')
       \<noteq> error_message (Error JUndefined (JNum (Finite 500)) ''boom'')"
  by (simp add: callTool_def validateInput_def validationSchemas_def Let_def getCachedResponse_def
      dispatch_def called_def handleGetSystemStats_def steady_world_def retry_always_failing
      nonRetryable_def)


text \<open>
  Towards C1: when the first invocation of a cacheable tool misses the cache and its
  handler returns a non-empty string, a second invocation with the same arguments
  within the TTL runs no handler and returns the first payload behind the marker
  \<^verbatim>\<open>[CACHED] \<close>.
\<close>

lemma repeat_call_served_from_cache:
  assumes "cacheable name"
    and "validateInput rt name args = Inr ok"
    and "distinct (map fst cache)"
    and "\<not> truthy (getCachedResponse (now_lookup w1) cache (cacheKey rt name args))"
    and "dispatch w1 name = (Inr (Str s), tr1)"
    and "s \<noteq> []"
    and "now_sweep w1 - now_store w1 \<le> CACHE_TTL"
    and "now_lookup w2 - now_store w1 < CACHE_TTL"
    and "callTool rt w1 cache name args = (r1, cache1, trace1)"
    and "callTool rt w2 cache1 name args = (r2, cache2, trace2)"
  shows "r1 = Inr (Content (Str s)) \<and> r2 = Inr (Content (Str (''[CACHED] '' @ s)))
       \<and> cache2 = cache1
       \<and> filter is_HandlerCall (trace1 @ trace2) = [HandlerCall name]
       \<and> trace2 = [CacheGet (cacheKey rt name args)]"
proof -
  let ?key = "cacheKey rt name args"
  have first: "callTool rt w1 cache name args
      = (Inr (Content (Str s)), setCachedResponse (now_store w1) (now_sweep w1) cache ?key (Str s),
         CacheGet ?key # tr1 @ [CacheSet ?key])"
    using assms(1,2,4,5) by (simp add: callTool_def Let_def)
  then have c1: "cache1 = setCachedResponse (now_store w1) (now_sweep w1) cache ?key (Str s)"
    and r1: "r1 = Inr (Content (Str s))" and t1: "trace1 = CacheGet ?key # tr1 @ [CacheSet ?key]"
    using assms(9) by simp_all
  have "map_of cache1 ?key = Some \<lparr>data = Str s, timestamp = now_store w1\<rparr>"
    unfolding c1 using assms(3,7) by (rule stored_entry)
  then have hit: "getCachedResponse (now_lookup w2) cache1 ?key = Str s"
    using assms(8) by (simp add: getCachedResponse_def)
  have second: "callTool rt w2 cache1 name args
      = (Inr (Content (Str (''[CACHED] '' @ s))), cache1, [CacheGet ?key])"
    using assms(1,2,6) hit by (simp add: callTool_def Let_def)
  have hc: "filter is_HandlerCall tr1 = [HandlerCall name]"
    using dispatch_one_HandlerCall[OF cacheable_known[OF assms(1)], of w1] assms(5) by simp
  show ?thesis using second assms(10) r1 t1 hc by simp
qed

lemma repeat_call_example:
  "callTool some_runtime (steady_world (Inr (Str ''pong'')) 0) [] ''get_system_stats'' []
     = (Inr (Content (Str ''pong'')),
        [(cacheKey some_runtime ''get_system_stats'' [], \<lparr>data = Str ''pong'', timestamp = 0\<rparr>)],
        [CacheGet (cacheKey some_runtime ''get_system_stats'' []), HandlerCall ''get_system_stats'',
         Attempt 0, CacheSet (cacheKey some_runtime ''get_system_stats'' [])])
   \<and> callTool some_runtime (steady_world (Inr (Str ''other'')) 299999)
        [(cacheKey some_runtime ''get_system_stats'' [], \<lparr>data = Str ''pong'', timestamp = 0\<rparr>)]
        ''get_system_stats'' []
     = (Inr (Content (Str ''[CACHED] pong'')),
        [(cacheKey some_runtime ''get_system_stats'' [], \<lparr>data = Str ''pong'', timestamp = 0\<rparr>)],
        [CacheGet (cacheKey some_runtime ''get_system_stats'' [])])"
proof -
  have v: "validateInput some_runtime ''get_system_stats'' [] = Inr True"
    by (simp add: validateInput_def validationSchemas_def)
  have d: "dispatch (steady_world (Inr (Str ''pong'')) 0) ''get_system_stats''
      = (Inr (Str ''pong''), [HandlerCall ''get_system_stats'', Attempt 0])"
    by (simp add: dispatch_def called_def handleGetSystemStats_def steady_world_def retry_succeeding)
  have c: "cacheable ''get_system_stats''" by (simp add: cacheable_def)
  have t: "now_lookup (steady_world x t) = t" "now_store (steady_world x t) = t"
    "now_sweep (steady_world x t) = t" for x t
    by (simp_all add: steady_world_def)
  show ?thesis
    by (simp add: callTool_def v Let_def d c t getCachedResponse_def setCachedResponse_def
        CACHE_TTL_def)
qed

text \<open>
  C1 at an empty payload. \<^verbatim>\<open>ask_athena\<close> is invoked twice with the same arguments, one
  millisecond apart, and the external call returns the empty string: the first
  invocation stores it, and the second, finding it, takes it for a miss
  (\<^verbatim>\<open>cached && ...\<close>), runs the handler again and returns an unmarked response.
\<close>

theorem empty_payload_is_recomputed:
  "callTool some_runtime (steady_world (Inr (Str [])) 0) [] ''ask_athena'' [(''prompt'', JStr ''hi'')]
     = (Inr (Content (Str [])),
        [(cacheKey some_runtime ''ask_athena'' [(''prompt'', JStr ''hi'')], \<lparr>data = Str [], timestamp = 0\<rparr>)],
        [CacheGet (cacheKey some_runtime ''ask_athena'' [(''prompt'', JStr ''hi'')]),
         HandlerCall ''ask_athena'', Attempt 0,
         CacheSet (cacheKey some_runtime ''ask_athena'' [(''prompt'', JStr ''hi'')])])
   \<and> 1 - 0 < CACHE_TTL
   \<and> callTool some_runtime (steady_world (Inr (Str [])) 1)
        [(cacheKey some_runtime ''ask_athena'' [(''prompt'', JStr ''hi'')], \<lparr>data = Str [], timestamp = 0\<rparr>)]
        ''ask_athena'' [(''prompt'', JStr ''hi'')]
     = (Inr (Content (Str [])),
        [(cacheKey some_runtime ''ask_athena'' [(''prompt'', JStr ''hi'')], \<lparr>data = Str [], timestamp = 1\<rparr>)],
        [CacheGet (cacheKey some_runtime ''ask_athena'' [(''prompt'', JStr ''hi'')]),
         HandlerCall ''ask_athena'', Attempt 0,
         CacheSet (cacheKey some_runtime ''ask_athena'' [(''prompt'', JStr ''hi'')])])"
proof -
  let ?key = "cacheKey some_runtime ''ask_athena'' [(''prompt'', JStr ''hi'')]"
  have d: "dispatch (steady_world (Inr (Str [])) t) ''ask_athena''
      = (Inr (Str []), [HandlerCall ''ask_athena'', Attempt 0])" for t
    by (simp add: dispatch_def called_def handleAskAthena_def steady_world_def retry_succeeding)
  have c: "cacheable ''ask_athena''" by (simp add: cacheable_def)
  have t: "now_lookup (steady_world x t) = t" "now_store (steady_world x t) = t"
    "now_sweep (steady_world x t) = t" for x t
    by (simp_all add: steady_world_def)
  have first: "callTool some_runtime (steady_world (Inr (Str [])) 0) [] ''ask_athena'' [(''prompt'', JStr ''hi'')]
     = (Inr (Content (Str [])), [(?key, \<lparr>data = Str [], timestamp = 0\<rparr>)],
        [CacheGet ?key, HandlerCall ''ask_athena'', Attempt 0, CacheSet ?key])"
    by (simp add: callTool_def validate_hi Let_def d c t getCachedResponse_def setCachedResponse_def)
  have second: "callTool some_runtime (steady_world (Inr (Str [])) 1)
        [(?key, \<lparr>data = Str [], timestamp = 0\<rparr>)] ''ask_athena'' [(''prompt'', JStr ''hi'')]
     = (Inr (Content (Str [])), [(?key, \<lparr>data = Str [], timestamp = 1\<rparr>)],
        [CacheGet ?key, HandlerCall ''ask_athena'', Attempt 0, CacheSet ?key])"
    by (simp add: callTool_def validate_hi Let_def d c t getCachedResponse_def setCachedResponse_def
        CACHE_TTL_def)
  show ?thesis using first second by (simp add: CACHE_TTL_def)
qed

subsection \<open>Input validation\<close>

lemma typeof_string: "js_typeof v = ''string'' \<longleftrightarrow> is_string v"
  by (cases v) (simp_all add: is_string_def)

lemma typeof_number: "js_typeof v = ''number'' \<longleftrightarrow> is_number v"
  by (cases v) (simp_all add: is_number_def)

lemma length_lt: "js_lt rt (JNum (Finite (of_nat (length s)))) n \<longleftrightarrow> int (length s) < n"
proof -
  have "(of_nat (length s) :: rat) = of_int (int (length s))" by simp
  then have "(of_nat (length s) :: rat) < of_int n \<longleftrightarrow> int (length s) < n"
    by (simp only: of_int_less_iff)
  then show ?thesis by (simp add: js_lt_def)
qed

lemma length_gt: "js_gt rt (JNum (Finite (of_nat (length s)))) n \<longleftrightarrow> n < int (length s)"
proof -
  have "(of_nat (length s) :: rat) = of_int (int (length s))" by simp
  then have "of_int n < (of_nat (length s) :: rat) \<longleftrightarrow> n < int (length s)"
    by (simp only: of_int_less_iff)
  then show ?thesis by (simp add: js_gt_def)
qed

lemma minLength_violated_typed:
  assumes "typed_rules rules" "type_rule rules = Some ''string'' \<longrightarrow> is_string v"
  shows "minLength_violated rt rules v
           = Inr (case minLength rules of Some n \<Rightarrow> shorter_than n v | None \<Rightarrow> False)"
proof (cases "minLength rules")
  case None
  then show ?thesis by (simp add: minLength_violated_def)
next
  case (Some n)
  with assms have "is_string v" by (simp add: typed_rules_def)
  then obtain s where "v = JStr s" by (cases v) (simp_all add: is_string_def)
  with Some show ?thesis by (simp add: minLength_violated_def shorter_than_def length_lt)
qed

lemma maxLength_violated_typed:
  assumes "typed_rules rules" "type_rule rules = Some ''string'' \<longrightarrow> is_string v"
  shows "maxLength_violated rt rules v
           = Inr (case maxLength rules of Some n \<Rightarrow> longer_than n v | None \<Rightarrow> False)"
proof (cases "maxLength rules")
  case None
  then show ?thesis by (simp add: maxLength_violated_def)
next
  case (Some n)
  with assms have "is_string v" and "n \<noteq> 0" by (auto simp: typed_rules_def)
  then obtain s where "v = JStr s" by (cases v) (simp_all add: is_string_def)
  with Some \<open>n \<noteq> 0\<close> show ?thesis by (simp add: maxLength_violated_def longer_than_def length_gt)
qed

lemma min_violated_typed:
  assumes "typed_rules rules" "type_rule rules = Some ''number'' \<longrightarrow> is_number v"
  shows "min_violated rt rules v = (case min_rule rules of Some n \<Rightarrow> below n v | None \<Rightarrow> False)"
proof (cases "min_rule rules")
  case None
  then show ?thesis by (simp add: min_violated_def)
next
  case (Some n)
  with assms have "is_number v" and "n \<noteq> 0" by (auto simp: typed_rules_def)
  then obtain x where "v = JNum x" by (cases v) (simp_all add: is_number_def)
  with Some \<open>n \<noteq> 0\<close> show ?thesis
    by (cases x) (simp_all add: min_violated_def below_def js_lt_def)
qed

lemma max_violated_typed:
  assumes "typed_rules rules" "type_rule rules = Some ''number'' \<longrightarrow> is_number v"
  shows "max_violated rt rules v = (case max_rule rules of Some n \<Rightarrow> above n v | None \<Rightarrow> False)"
proof (cases "max_rule rules")
  case None
  then show ?thesis by (simp add: max_violated_def)
next
  case (Some n)
  with assms have "is_number v" and "n \<noteq> 0" by (auto simp: typed_rules_def)
  then obtain x where "v = JNum x" by (cases v) (simp_all add: is_number_def)
  with Some \<open>n \<noteq> 0\<close> show ?thesis
    by (cases x) (simp_all add: max_violated_def above_def js_gt_def)
qed

lemma enum_violated_member:
  "enum_violated rules v = (case enum rules of Some allowed \<Rightarrow> \<not> member_of allowed v | None \<Rightarrow> False)"
  by (simp add: enum_violated_def member_of_def split: option.splits)

lemma validateField_refines:
  assumes "typed_rules rules"
  shows "validateField rt field rules v =
          (case amended_field_violation field rules v of None \<Rightarrow> Inr () | Some msg \<Rightarrow> invalid msg)"
proof (cases "required rules \<and> absent v")
  case True
  then show ?thesis by (simp add: validateField_def amended_field_violation_def absent_def)
next
  case req: False
  show ?thesis
  proof (cases "supplied v")
    case False
    with req show ?thesis
      by (simp add: validateField_def amended_field_violation_def absent_def supplied_def)
  next
    case pres: True
    show ?thesis
    proof (cases "type_rule rules = Some ''string'' \<and> \<not> is_string v")
      case True
      with req pres show ?thesis
        by (auto simp: validateField_def amended_field_violation_def absent_def supplied_def typeof_string)
    next
      case str: False
      show ?thesis
      proof (cases "type_rule rules = Some ''number'' \<and> \<not> is_number v")
        case True
        with req pres str show ?thesis
          by (auto simp: validateField_def amended_field_violation_def absent_def supplied_def
              typeof_string typeof_number)
      next
        case num: False
        have s: "type_rule rules = Some ''string'' \<longrightarrow> is_string v" using str by blast
        have n: "type_rule rules = Some ''number'' \<longrightarrow> is_number v" using num by blast
        have code: "validateField rt field rules v =
            (if (case minLength rules of Some n \<Rightarrow> shorter_than n v | None \<Rightarrow> False) then
               invalid (''Field '' @ field @ '' must be at least ''
                  @ Number_toString (the (minLength rules)) @ '' characters'')
             else if (case maxLength rules of Some n \<Rightarrow> longer_than n v | None \<Rightarrow> False) then
               invalid (''Field '' @ field @ '' must be at most ''
                  @ Number_toString (the (maxLength rules)) @ '' characters'')
             else if (case min_rule rules of Some n \<Rightarrow> below n v | None \<Rightarrow> False) then
               invalid (''Field '' @ field @ '' must be at least ''
                  @ Number_toString (the (min_rule rules)))
             else if (case max_rule rules of Some n \<Rightarrow> above n v | None \<Rightarrow> False) then
               invalid (''Field '' @ field @ '' must be at most ''
                  @ Number_toString (the (max_rule rules)))
             else if (case enum rules of Some allowed \<Rightarrow> \<not> member_of allowed v | None \<Rightarrow> False) then
               invalid (''Field '' @ field @ '' must be one of: '' @ join '', '' (the (enum rules)))
             else Inr ())"
          using req pres str num
          by (auto simp: validateField_def absent_def supplied_def typeof_string typeof_number
              minLength_violated_typed[OF assms s] maxLength_violated_typed[OF assms s]
              min_violated_typed[OF assms n] max_violated_typed[OF assms n] enum_violated_member)
        have spec: "amended_field_violation field rules v =
            (if (case minLength rules of Some n \<Rightarrow> shorter_than n v | None \<Rightarrow> False) then
               Some (''Field '' @ field @ '' must be at least ''
                  @ Number_toString (the (minLength rules)) @ '' characters'')
             else if (case maxLength rules of Some n \<Rightarrow> longer_than n v | None \<Rightarrow> False) then
               Some (''Field '' @ field @ '' must be at most ''
                  @ Number_toString (the (maxLength rules)) @ '' characters'')
             else if (case min_rule rules of Some n \<Rightarrow> below n v | None \<Rightarrow> False) then
               Some (''Field '' @ field @ '' must be at least ''
                  @ Number_toString (the (min_rule rules)))
             else if (case max_rule rules of Some n \<Rightarrow> above n v | None \<Rightarrow> False) then
               Some (''Field '' @ field @ '' must be at most ''
                  @ Number_toString (the (max_rule rules)))
             else if (case enum rules of Some allowed \<Rightarrow> \<not> member_of allowed v | None \<Rightarrow> False) then
               Some (''Field '' @ field @ '' must be one of: '' @ join '', '' (the (enum rules)))
             else None)"
          using req pres str num by (auto simp: amended_field_violation_def)
        show ?thesis unfolding code spec by simp
      qed
    qed
  qed
qed


lemma registered_typed:
  "map_of validationSchemas name = Some schema \<Longrightarrow> (field, rules) \<in> set schema \<Longrightarrow> typed_rules rules"
  by (auto simp: validationSchemas_def typed_rules_def no_rules_def split: if_splits)

lemma validateFields_refines:
  assumes "\<forall>(field, rules) \<in> set schema. typed_rules rules"
  shows "validateFields rt schema args =
          (case amended_schema_violation schema args of
             None \<Rightarrow> Inr True | Some msg \<Rightarrow> Inl (McpError InvalidParams msg))"
  using assms
proof (induction schema)
  case Nil
  then show ?case by simp
next
  case (Cons p schema)
  obtain field rules where p: "p = (field, rules)" by (cases p)
  with Cons.prems have t: "typed_rules rules" by simp
  from Cons have IH: "validateFields rt schema args =
          (case amended_schema_violation schema args of
             None \<Rightarrow> Inr True | Some msg \<Rightarrow> Inl (McpError InvalidParams msg))" by simp
  show ?case unfolding p
    by (simp add: validateField_refines[OF t] IH invalid_def split: option.splits)
qed

lemma validateInput_refines: "validateInput rt name args = amended_validate name args"
proof (cases "map_of validationSchemas name")
  case None
  then show ?thesis by (simp add: validateInput_def amended_validate_def)
next
  case (Some schema)
  then have "\<forall>(field, rules) \<in> set schema. typed_rules rules"
    using registered_typed by blast
  from validateFields_refines[OF this] Some show ?thesis
    by (simp add: validateInput_def amended_validate_def)
qed

lemma amended_schema_violation_append:
  "amended_schema_violation (pre @ (field, rules) # post) args =
     (case amended_schema_violation pre args of
        Some msg \<Rightarrow> Some msg
      | None \<Rightarrow> (case amended_field_violation field rules (js_get args field) of
                   Some msg \<Rightarrow> Some msg
                 | None \<Rightarrow> amended_schema_violation post args))"
  by (induction pre) (auto split: option.splits)


lemma below_violation:
  assumes "typed_rules rules" "min_rule rules = Some n" "below n v"
  shows "amended_field_violation field rules v
           = Some (''Field '' @ field @ '' must be at least '' @ Number_toString n)"
proof -
  from assms(3) obtain x where v: "v = JNum x" by (cases v) (simp_all add: below_def)
  from assms(1,2) have ty: "type_rule rules = Some ''number''" by (simp add: typed_rules_def)
  then have nl: "minLength rules = None" "maxLength rules = None"
    using assms(1) by (auto simp: typed_rules_def)
  show ?thesis using v ty nl assms(2,3)
    by (simp add: amended_field_violation_def absent_def supplied_def is_string_def is_number_def)
qed

lemma above_violation:
  assumes "typed_rules rules" "max_rule rules = Some n" "above n v"
    "\<not> (case min_rule rules of Some m \<Rightarrow> below m v | None \<Rightarrow> False)"
  shows "amended_field_violation field rules v
           = Some (''Field '' @ field @ '' must be at most '' @ Number_toString n)"
proof -
  from assms(3) obtain x where v: "v = JNum x" by (cases v) (simp_all add: above_def)
  from assms(1,2) have ty: "type_rule rules = Some ''number''" by (simp add: typed_rules_def)
  then have nl: "minLength rules = None" "maxLength rules = None"
    using assms(1) by (auto simp: typed_rules_def)
  show ?thesis using ty nl assms(2,3,4) unfolding v
    by (simp add: amended_field_violation_def absent_def supplied_def is_string_def is_number_def)
qed

lemma spec_field_agrees:
  "v \<noteq> JNull \<Longrightarrow> spec_field_violation field rules v = amended_field_violation field rules v"
  by (simp add: spec_field_violation_def amended_field_violation_def present_def supplied_def
      absent_def)

lemma js_get_not_null: "JNull \<notin> snd ` set args \<Longrightarrow> js_get args field \<noteq> JNull"
proof
  assume a: "JNull \<notin> snd ` set args" and g: "js_get args field = JNull"
  then have "map_of args field = Some JNull"
    by (cases "map_of args field") (simp_all add: js_get_def)
  then have "(field, JNull) \<in> set args" by (rule map_of_SomeD)
  then have "JNull \<in> snd ` set args" by force
  with a show False by simp
qed

lemma spec_schema_agrees:
  "JNull \<notin> snd ` set args \<Longrightarrow>
   spec_schema_violation schema args = amended_schema_violation schema args"
  by (induction schema) (auto simp: spec_field_agrees js_get_not_null split: option.splits)

lemma spec_validate_agrees:
  "JNull \<notin> snd ` set args \<Longrightarrow> spec_validate name args = amended_validate name args"
  by (simp add: spec_validate_def amended_validate_def spec_schema_agrees split: option.splits)

lemma digits_1: "Number_toString 1 = ''1''"
  by code_simp

lemma digits_bounds:
  "Number_toString 4 = ''4''" "Number_toString 1000 = ''1000''" "Number_toString 2000 = ''2000''"
  by code_simp+

text \<open>
  Outside the registered schemas the loop does not follow the contract: a bound of
  \<open>0\<close> is falsy and checks nothing, so a rule set with \<^verbatim>\<open>min: 0\<close> lets \<open>-1\<close> pass.
  No registered schema sets such a bound.
\<close>

lemma zero_bound_checks_nothing:
  "validateField rt ''x'' (no_rules\<lparr>type_rule := Some ''number'', min_rule := Some 0\<rparr>)
     (JNum (Finite (- 1))) = Inr ()
   \<and> amended_field_violation ''x'' (no_rules\<lparr>type_rule := Some ''number'', min_rule := Some 0\<rparr>)
     (JNum (Finite (- 1))) = Some (''Field x must be at least '' @ Number_toString 0)"
  by (simp add: validateField_def amended_field_violation_def no_rules_def minLength_violated_def
      maxLength_violated_def min_violated_def max_violated_def enum_violated_def absent_def
      supplied_def is_string_def is_number_def below_def)

lemma registered_messages:
  "validateInput rt ''web_request'' [] = Inl (McpError InvalidParams ''Missing required field: url'')"
  "validateInput rt ''analyze_code'' [(''code'', JStr ''x''), (''language'', JBool True)]
     = Inl (McpError InvalidParams ''Field language must be a string'')"
  "validateInput rt ''image_generate'' [(''prompt'', JStr ''a cat''), (''n'', JStr ''2'')]
     = Inl (McpError InvalidParams ''Field n must be a number'')"
  "validateInput rt ''analyze_code'' [(''code'', JStr [])]
     = Inl (McpError InvalidParams ''Field code must be at least 1 characters'')"
  "validateInput rt ''image_generate'' [(''prompt'', JStr (replicate 1001 CHR ''a''))]
     = Inl (McpError InvalidParams ''Field prompt must be at most 1000 characters'')"
  "validateInput rt ''ask_athena'' [(''prompt'', JStr (replicate 2001 CHR ''a''))]
     = Inl (McpError InvalidParams ''Field prompt must be at most 2000 characters'')"
  "validateInput rt ''image_generate'' [(''prompt'', JStr ''a cat''), (''n'', JNum (Finite 0))]
     = Inl (McpError InvalidParams ''Field n must be at least 1'')"
  "validateInput rt ''image_generate'' [(''prompt'', JStr ''a cat''), (''n'', JNum (Finite 5))]
     = Inl (McpError InvalidParams ''Field n must be at most 4'')"
  "validateInput rt ''image_generate'' [(''prompt'', JStr ''a cat''), (''size'', JStr ''big'')]
     = Inl (McpError InvalidParams ''Field size must be one of: 256x256, 512x512, 1024x1024'')"
  "validateInput rt ''analyze_code'' [(''code'', JStr ''x''), (''analysis_type'', JStr ''lint'')]
     = Inl (McpError InvalidParams ''Field analysis_type must be one of: review, explain, optimize, debug'')"
  "validateInput rt ''web_request'' [(''url'', JStr ''u''), (''method'', JStr ''HEAD'')]
     = Inl (McpError InvalidParams ''Field method must be one of: GET, POST, PUT, DELETE, PATCH'')"
  "validateInput rt ''image_generate''
     [(''prompt'', JStr (replicate 1000 CHR ''a'')), (''size'', JStr ''512x512''), (''n'', JNum (Finite 4))]
     = Inr True"
  by (simp_all add: validateInput_def validationSchemas_def validateField_def no_rules_def js_get_def
      minLength_violated_def maxLength_violated_def min_violated_def max_violated_def
      enum_violated_def js_lt_def js_gt_def invalid_def digits_1 digits_bounds)

text \<open>
  C4, as amended. \<^verbatim>\<open>validateInput\<close> passes when no schema is registered for the name.
  Otherwise it is the amended contract: the fields in schema order, for each field the
  rules in the order required, string type, number type, minLength, maxLength, min,
  max, enum, where \<^verbatim>\<open>null\<close> is absent for the required rule and a supplied value for
  the others; it throws \<^verbatim>\<open>InvalidParams\<close> with the message of the first violated rule
  and returns \<^verbatim>\<open>true\<close> when no rule of any field is violated. For an argument map
  that binds no field to \<^verbatim>\<open>null\<close> it is the contract in the words of the
  specification. In particular a number below the \<^verbatim>\<open>min\<close> of its field, or above its
  \<^verbatim>\<open>max\<close>, always fails the validation, with the message
  \<^verbatim>\<open>Field <field> must be at least <n>\<close> (at most) when no rule before it is violated.
\<close>

theorem validateInput_contract:
  "(map_of validationSchemas name = None \<longrightarrow> validateInput rt name args = Inr True)
 \<and> validateInput rt name args = amended_validate name args
 \<and> (JNull \<notin> snd ` set args \<longrightarrow> validateInput rt name args = spec_validate name args)
 \<and> (map_of validationSchemas name = Some (pre @ (field, rules) # post)
      \<and> amended_schema_violation pre args = None
      \<and> min_rule rules = Some n \<and> below n (js_get args field) \<longrightarrow>
      validateInput rt name args
        = Inl (McpError InvalidParams (''Field '' @ field @ '' must be at least '' @ Number_toString n)))
 \<and> (map_of validationSchemas name = Some (pre @ (field, rules) # post)
      \<and> amended_schema_violation pre args = None
      \<and> max_rule rules = Some n \<and> above n (js_get args field)
      \<and> \<not> (case min_rule rules of Some m \<Rightarrow> below m (js_get args field) | None \<Rightarrow> False) \<longrightarrow>
      validateInput rt name args
        = Inl (McpError InvalidParams (''Field '' @ field @ '' must be at most '' @ Number_toString n)))
 \<and> (map_of validationSchemas name = Some schema \<and> (field, rules) \<in> set schema
      \<and> ((\<exists>n. min_rule rules = Some n \<and> below n (js_get args field))
          \<or> (\<exists>n. max_rule rules = Some n \<and> above n (js_get args field))) \<longrightarrow>
      (\<exists>msg. validateInput rt name args = Inl (McpError InvalidParams msg)))"
proof -
  have c1: "map_of validationSchemas name = None \<longrightarrow> validateInput rt name args = Inr True"
    by (simp add: validateInput_def)
  have c2: "validateInput rt name args = amended_validate name args"
    by (rule validateInput_refines)
  have c2': "JNull \<notin> snd ` set args \<longrightarrow> validateInput rt name args = spec_validate name args"
    by (simp add: validateInput_refines spec_validate_agrees)
  have c3: "map_of validationSchemas name = Some (pre @ (field, rules) # post)
      \<and> amended_schema_violation pre args = None
      \<and> min_rule rules = Some n \<and> below n (js_get args field) \<longrightarrow>
      validateInput rt name args
        = Inl (McpError InvalidParams (''Field '' @ field @ '' must be at least '' @ Number_toString n))"
  proof (intro impI, elim conjE)
    assume a: "map_of validationSchemas name = Some (pre @ (field, rules) # post)"
      "amended_schema_violation pre args = None" "min_rule rules = Some n" "below n (js_get args field)"
    have t: "typed_rules rules" using registered_typed[OF a(1), of field rules] by simp
    show "validateInput rt name args
        = Inl (McpError InvalidParams (''Field '' @ field @ '' must be at least '' @ Number_toString n))"
      unfolding c2 using a(1,2) below_violation[OF t a(3,4)]
      by (simp add: amended_validate_def amended_schema_violation_append)
  qed
  have c4: "map_of validationSchemas name = Some (pre @ (field, rules) # post)
      \<and> amended_schema_violation pre args = None
      \<and> max_rule rules = Some n \<and> above n (js_get args field)
      \<and> \<not> (case min_rule rules of Some m \<Rightarrow> below m (js_get args field) | None \<Rightarrow> False) \<longrightarrow>
      validateInput rt name args
        = Inl (McpError InvalidParams (''Field '' @ field @ '' must be at most '' @ Number_toString n))"
  proof (intro impI, elim conjE)
    assume a: "map_of validationSchemas name = Some (pre @ (field, rules) # post)"
      "amended_schema_violation pre args = None" "max_rule rules = Some n" "above n (js_get args field)"
      "\<not> (case min_rule rules of Some m \<Rightarrow> below m (js_get args field) | None \<Rightarrow> False)"
    have t: "typed_rules rules" using registered_typed[OF a(1), of field rules] by simp
    show "validateInput rt name args
        = Inl (McpError InvalidParams (''Field '' @ field @ '' must be at most '' @ Number_toString n))"
      unfolding c2 using a(1,2) above_violation[OF t a(3,4,5)]
      by (simp add: amended_validate_def amended_schema_violation_append)
  qed
  have c5: "map_of validationSchemas name = Some schema \<and> (field, rules) \<in> set schema
      \<and> ((\<exists>n. min_rule rules = Some n \<and> below n (js_get args field))
          \<or> (\<exists>n. max_rule rules = Some n \<and> above n (js_get args field))) \<longrightarrow>
      (\<exists>msg. validateInput rt name args = Inl (McpError InvalidParams msg))"
  proof (intro impI, elim conjE)
    assume a: "map_of validationSchemas name = Some schema" "(field, rules) \<in> set schema"
      "(\<exists>n. min_rule rules = Some n \<and> below n (js_get args field))
          \<or> (\<exists>n. max_rule rules = Some n \<and> above n (js_get args field))"
    have t: "typed_rules rules" using registered_typed[OF a(1,2)] .
    have "\<exists>msg. amended_field_violation field rules (js_get args field) = Some msg"
    proof (cases "case min_rule rules of Some m \<Rightarrow> below m (js_get args field) | None \<Rightarrow> False")
      case True
      then obtain m where "min_rule rules = Some m" "below m (js_get args field)"
        by (auto split: option.splits)
      from below_violation[OF t this] show ?thesis by blast
    next
      case False
      with a(3) obtain m where "max_rule rules = Some m" "above m (js_get args field)"
        by (auto split: option.splits)
      from above_violation[OF t this False] show ?thesis by blast
    qed
    moreover obtain pre post where "schema = pre @ (field, rules) # post"
      using a(2) by (meson split_list)
    ultimately have "\<exists>msg. amended_schema_violation schema args = Some msg"
      by (auto simp: amended_schema_violation_append split: option.splits)
    then show "\<exists>msg. validateInput rt name args = Inl (McpError InvalidParams msg)"
      unfolding c2 using a(1) by (auto simp: amended_validate_def)
  qed
  show ?thesis by (intro conjI c1 c2 c2' c3 c4 c5)
qed


theorem validateInput_contract_witness:
  "map_of validationSchemas ''image_generate''
     = Some ([(''prompt'', no_rules\<lparr>type_rule := Some ''string'', required := True,
                                   minLength := Some 1, maxLength := Some 1000\<rparr>),
              (''size'', no_rules\<lparr>type_rule := Some ''string'',
                                 enum := Some [''256x256'', ''512x512'', ''1024x1024'']\<rparr>)]
             @ (''n'', no_rules\<lparr>type_rule := Some ''number'', min_rule := Some 1, max_rule := Some 4\<rparr>) # [])
   \<and> below 1 (js_get [(''prompt'', JStr ''a cat''), (''n'', JNum (Finite 0))] ''n'')
   \<and> validateInput some_runtime ''image_generate'' [(''prompt'', JStr ''a cat''), (''n'', JNum (Finite 0))]
       = Inl (McpError InvalidParams ''Field n must be at least 1'')
   \<and> above 4 (js_get [(''prompt'', JStr ''a cat''), (''n'', JNum (Finite 5))] ''n'')
   \<and> validateInput some_runtime ''image_generate'' [(''prompt'', JStr ''a cat''), (''n'', JNum (Finite 5))]
       = Inl (McpError InvalidParams ''Field n must be at most 4'')
   \<and> map_of validationSchemas ''list_files'' = None
   \<and> validateInput some_runtime ''list_files'' [(''prompt'', JNull)] = Inr True
   \<and> amended_validate ''image_generate'' [(''prompt'', JStr (replicate 1001 CHR ''a''))]
       = Inl (McpError InvalidParams ''Field prompt must be at most 1000 characters'')
   \<and> amended_validate ''ask_athena'' [(''prompt'', JStr (replicate 2001 CHR ''a''))]
       = Inl (McpError InvalidParams ''Field prompt must be at most 2000 characters'')
   \<and> amended_validate ''image_generate'' [(''prompt'', JStr ''a cat''), (''size'', JStr ''big'')]
       = Inl (McpError InvalidParams ''Field size must be one of: 256x256, 512x512, 1024x1024'')
   \<and> JNull \<notin> snd ` set [(''url'', JStr ''u''), (''method'', JStr ''HEAD'')]
   \<and> spec_validate ''web_request'' [(''url'', JStr ''u''), (''method'', JStr ''HEAD'')]
       = Inl (McpError InvalidParams ''Field method must be one of: GET, POST, PUT, DELETE, PATCH'')"
proof -
  let ?pre = "[(''prompt'', no_rules\<lparr>type_rule := Some ''string'', required := True,
                                   minLength := Some 1, maxLength := Some 1000\<rparr>),
              (''size'', no_rules\<lparr>type_rule := Some ''string'',
                                 enum := Some [''256x256'', ''512x512'', ''1024x1024'']\<rparr>)]"
  let ?rules = "no_rules\<lparr>type_rule := Some ''number'', min_rule := Some 1, max_rule := Some 4\<rparr>"
  let ?args = "[(''prompt'', JStr ''a cat''), (''n'', JNum (Finite 0))]"
  let ?args5 = "[(''prompt'', JStr ''a cat''), (''n'', JNum (Finite 5))]"
  have h1: "map_of validationSchemas ''image_generate'' = Some (?pre @ (''n'', ?rules) # [])"
    by (simp add: validationSchemas_def)
  have h2: "amended_schema_violation ?pre ?args = None"
    by (simp add: amended_field_violation_def no_rules_def js_get_def absent_def supplied_def
        is_string_def shorter_than_def longer_than_def)
  have h2': "amended_schema_violation ?pre ?args5 = None"
    by (simp add: amended_field_violation_def no_rules_def js_get_def absent_def supplied_def
        is_string_def shorter_than_def longer_than_def)
  have h3: "min_rule ?rules = Some 1" by (simp add: no_rules_def)
  have h3': "max_rule ?rules = Some 4" by (simp add: no_rules_def)
  have h4: "below 1 (js_get ?args ''n'')" by (simp add: js_get_def below_def)
  have h4': "above 4 (js_get ?args5 ''n'')" by (simp add: js_get_def above_def)
  have h4'': "\<not> (case min_rule ?rules of Some m \<Rightarrow> below m (js_get ?args5 ''n'') | None \<Rightarrow> False)"
    by (simp add: no_rules_def js_get_def below_def)
  have h5: "map_of validationSchemas ''list_files'' = None" by (simp add: validationSchemas_def)
  have h6: "JNull \<notin> snd ` set [(''url'', JStr ''u''), (''method'', JStr ''HEAD'')]" by simp
  note c = validateInput_contract[of "''image_generate''" some_runtime ?args ?pre "''n''" ?rules "[]" 1]
  from c[THEN conjunct2, THEN conjunct2, THEN conjunct2, THEN conjunct1] h1 h2 h3 h4
  have r: "validateInput some_runtime ''image_generate'' ?args
       = Inl (McpError InvalidParams (''Field '' @ ''n'' @ '' must be at least '' @ Number_toString 1))"
    by blast
  note c5 = validateInput_contract[of "''image_generate''" some_runtime ?args5 ?pre "''n''" ?rules "[]" 4]
  from c5[THEN conjunct2, THEN conjunct2, THEN conjunct2, THEN conjunct2, THEN conjunct1] h1 h2' h3' h4' h4''
  have r5: "validateInput some_runtime ''image_generate'' ?args5
       = Inl (McpError InvalidParams (''Field '' @ ''n'' @ '' must be at most '' @ Number_toString 4))"
    by blast
  from validateInput_contract[of "''list_files''" some_runtime "[(''prompt'', JNull)]", THEN conjunct1] h5
  have u: "validateInput some_runtime ''list_files'' [(''prompt'', JNull)] = Inr True" by blast
  have a1: "amended_validate ''image_generate'' [(''prompt'', JStr (replicate 1001 CHR ''a''))]
       = Inl (McpError InvalidParams ''Field prompt must be at most 1000 characters'')"
    using validateInput_contract[of "''image_generate''" some_runtime
        "[(''prompt'', JStr (replicate 1001 CHR ''a''))]", THEN conjunct2, THEN conjunct1]
      registered_messages(5)[of some_runtime] by simp
  have a2: "amended_validate ''ask_athena'' [(''prompt'', JStr (replicate 2001 CHR ''a''))]
       = Inl (McpError InvalidParams ''Field prompt must be at most 2000 characters'')"
    using validateInput_contract[of "''ask_athena''" some_runtime
        "[(''prompt'', JStr (replicate 2001 CHR ''a''))]", THEN conjunct2, THEN conjunct1]
      registered_messages(6)[of some_runtime] by simp
  have a3: "amended_validate ''image_generate'' [(''prompt'', JStr ''a cat''), (''size'', JStr ''big'')]
       = Inl (McpError InvalidParams ''Field size must be one of: 256x256, 512x512, 1024x1024'')"
    using validateInput_contract[of "''image_generate''" some_runtime
        "[(''prompt'', JStr ''a cat''), (''size'', JStr ''big'')]", THEN conjunct2, THEN conjunct1]
      registered_messages(9)[of some_runtime] by simp
  have a4: "spec_validate ''web_request'' [(''url'', JStr ''u''), (''method'', JStr ''HEAD'')]
       = Inl (McpError InvalidParams ''Field method must be one of: GET, POST, PUT, DELETE, PATCH'')"
    using validateInput_contract[of "''web_request''" some_runtime
        "[(''url'', JStr ''u''), (''method'', JStr ''HEAD'')]", THEN conjunct2, THEN conjunct2, THEN conjunct1]
      h6 registered_messages(11)[of some_runtime] by simp
  show ?thesis using h1 h4 h4' h5 h6 r r5 u a1 a2 a3 a4 by (simp add: digits_1 digits_bounds)
qed

text \<open>
  C4 as stated, with its rules read in the words of the specification, fails at a
  \<^verbatim>\<open>null\<close> in an optional typed field: \<^verbatim>\<open>null\<close> is absent there, so no rule of any
  field is violated, and the code throws.
\<close>

theorem null_is_no_violation_in_the_spec:
  "spec_validate ''image_generate'' [(''prompt'', JStr ''a cat''), (''size'', JNull)] = Inr True
   \<and> validateInput some_runtime ''image_generate'' [(''prompt'', JStr ''a cat''), (''size'', JNull)]
       = Inl (McpError InvalidParams ''Field size must be a string'')"
proof -
  have s: "spec_validate ''image_generate'' [(''prompt'', JStr ''a cat''), (''size'', JNull)] = Inr True"
    by (simp add: spec_validate_def validationSchemas_def spec_field_violation_def no_rules_def
        js_get_def absent_def present_def is_string_def is_number_def shorter_than_def
        longer_than_def below_def above_def member_of_def)
  have c: "validateInput some_runtime ''image_generate'' [(''prompt'', JStr ''a cat''), (''size'', JNull)]
       = Inl (McpError InvalidParams ''Field size must be a string'')"
    by (simp add: validateInput_def validationSchemas_def validateField_def no_rules_def js_get_def
        minLength_violated_def maxLength_violated_def min_violated_def max_violated_def
        enum_violated_def js_lt_def js_gt_def invalid_def)
  show ?thesis using s c by simp
qed





subsection \<open>The cache key\<close>

lemma callTool_first_event:
  "take 1 (snd (snd (callTool rt w cache name args)))
     = (case validateInput rt name args of Inl e \<Rightarrow> [] | Inr ok \<Rightarrow> [CacheGet (cacheKey rt name args)])"
proof (cases "validateInput rt name args")
  case (Inl e)
  then show ?thesis by (simp add: callTool_def)
next
  case (Inr ok)
  obtain r tr where d: "dispatch w name = (r, tr)" by (cases "dispatch w name")
  show ?thesis using Inr d
    by (cases r) (simp_all add: callTool_def Let_def)
qed

lemma same_fields_same_order:
  assumes "map fst xs = map fst ys" "distinct (map fst xs)"
    "\<forall>f \<in> set (map fst xs). js_get xs f = js_get ys f"
  shows "xs = ys"
  using assms
proof (induction xs arbitrary: ys)
  case Nil
  then show ?case by simp
next
  case (Cons p xs)
  then obtain q ys' where ys: "ys = q # ys'" by (cases ys) auto
  obtain k v where p: "p = (k, v)" by (cases p)
  obtain k' v' where q: "q = (k', v')" by (cases q)
  from Cons.prems(1) ys p q have k: "k' = k" and m: "map fst xs = map fst ys'" by simp_all
  from Cons.prems(3) ys p q k have v: "v' = v" by (simp add: js_get_def)
  have notin: "k \<notin> fst ` set xs" using Cons.prems(2) p by simp
  have "js_get xs f = js_get ys' f" if "f \<in> set (map fst xs)" for f
  proof -
    have "f \<noteq> k" using that notin by auto
    moreover have "f \<in> set (map fst (p # xs))" using that by simp
    then have "js_get (p # xs) f = js_get ys f" using Cons.prems(3) by blast
    ultimately show ?thesis using ys p q k by (simp add: js_get_def)
  qed
  then have "xs = ys'" using Cons.IH[OF m] Cons.prems(2) by simp
  with ys p q k v show ?case by simp
qed

text \<open>
  C8, as amended. Two invocations with the same tool name whose argument objects have
  the same fields, in the same order, bound to equal values compute the same cache
  key, and look it up under that key whatever the cache and the surroundings of either
  invocation.
\<close>

theorem cacheKey_same_order:
  assumes "name1 = name2"
    and "map fst args1 = map fst args2"
    and "distinct (map fst args1)"
    and "\<forall>f \<in> set (map fst args1). js_get args1 f = js_get args2 f"
  shows "cacheKey rt name1 args1 = cacheKey rt name2 args2
       \<and> take 1 (snd (snd (callTool rt w1 cache1 name1 args1)))
           = take 1 (snd (snd (callTool rt w2 cache2 name2 args2)))"
proof -
  have e: "args1 = args2" using assms(2,3,4) by (rule same_fields_same_order)
  show ?thesis unfolding assms(1) e callTool_first_event by simp
qed

theorem cacheKey_same_order_witness:
  "map fst [(''prompt'', JStr ''p''), (''context'', JStr ''c'')]
     = map fst [(''prompt'', JStr ''p''), (''context'', JStr ''c'')]
   \<and> distinct (map fst [(''prompt'', JStr ''p''), (''context'', JStr ''c'')])
   \<and> take 1 (snd (snd (callTool some_runtime (steady_world (Inr (Str ''x'')) 0) []
                  ''ask_athena'' [(''prompt'', JStr ''p''), (''context'', JStr ''c'')])))
       = [CacheGet (cacheKey some_runtime ''ask_athena'' [(''prompt'', JStr ''p''), (''context'', JStr ''c'')])]
   \<and> take 1 (snd (snd (callTool some_runtime (steady_world (Inl (Error JUndefined JUndefined ''down'')) 9)
                  [(''k'', \<lparr>data = Str ''v'', timestamp = 5\<rparr>)]
                  ''ask_athena'' [(''prompt'', JStr ''p''), (''context'', JStr ''c'')])))
       = [CacheGet (cacheKey some_runtime ''ask_athena'' [(''prompt'', JStr ''p''), (''context'', JStr ''c'')])]"
proof -
  let ?args = "[(''prompt'', JStr ''p''), (''context'', JStr ''c'')]"
  have v: "validateInput some_runtime ''ask_athena'' ?args = Inr True"
    by (simp add: validateInput_def validationSchemas_def validateField_def no_rules_def js_get_def
      minLength_violated_def maxLength_violated_def min_violated_def max_violated_def
      enum_violated_def js_lt_def js_gt_def)
  have d: "dispatch (steady_world (Inr (Str ''x'')) 0) ''ask_athena''
      = (Inr (Str ''x''), [HandlerCall ''ask_athena'', Attempt 0])"
    by (simp add: dispatch_def called_def handleAskAthena_def steady_world_def
        withRetry_def withRetry_from.simps MAX_RETRIES_def)
  have one: "take 1 (snd (snd (callTool some_runtime (steady_world (Inr (Str ''x'')) 0) []
                  ''ask_athena'' ?args)))
       = [CacheGet (cacheKey some_runtime ''ask_athena'' ?args)]"
    unfolding callTool_first_event by (simp add: v)
  have h2: "map fst ?args = map fst ?args" by simp
  have h3: "distinct (map fst ?args)" by simp
  have h4: "\<forall>f \<in> set (map fst ?args). js_get ?args f = js_get ?args f" by simp
  from cacheKey_same_order[OF refl h2 h3 h4, of some_runtime "''ask_athena''"
      "steady_world (Inr (Str ''x'')) 0" "[]"
      "steady_world (Inl (Error JUndefined JUndefined ''down'')) 9"
      "[(''k'', \<lparr>data = Str ''v'', timestamp = 5\<rparr>)]"]
  show ?thesis using one by (simp del: One_nat_def)
qed

text \<open>
  C8 as stated fails: the key is made with \<^verbatim>\<open>JSON.stringify\<close>, which writes the
  properties in their order of insertion, so two argument objects with the same fields
  bound to the same values in a different order have different keys.
\<close>

theorem cacheKey_depends_on_field_order:
  "distinct (map fst [(''prompt'', JStr ''p''), (''context'', JStr ''c'')])
   \<and> distinct (map fst [(''context'', JStr ''c''), (''prompt'', JStr ''p'')])
   \<and> map_of [(''prompt'', JStr ''p''), (''context'', JStr ''c'')]
       = map_of [(''context'', JStr ''c''), (''prompt'', JStr ''p'')]
   \<and> cacheKey some_runtime ''ask_athena'' [(''prompt'', JStr ''p''), (''context'', JStr ''c'')]
       \<noteq> cacheKey some_runtime ''ask_athena'' [(''context'', JStr ''c''), (''prompt'', JStr ''p'')]"
proof -
  have m: "map_of [(''prompt'', JStr ''p''), (''context'', JStr ''c'')]
       = map_of [(''context'', JStr ''c''), (''prompt'', JStr ''p'')]"
    by (rule ext) simp
  have k: "cacheKey some_runtime ''ask_athena'' [(''prompt'', JStr ''p''), (''context'', JStr ''c'')]
       \<noteq> cacheKey some_runtime ''ask_athena'' [(''context'', JStr ''c''), (''prompt'', JStr ''p'')]"
    by (simp add: cacheKey_def JSON_quote_def quote_char_def)
  show ?thesis using m k by simp
qed

end
